theory Spec2Isabelle
  imports Main "HOL-Library.Multiset"
begin

section \<open>Request coordinator: src/utils/RateLimiter.ts\<close>

text \<open>
  The class \<^verbatim>\<open>RateLimiter\<close> is embedded with explicit state passing. Times are
  milliseconds as returned by \<^verbatim>\<open>Date.now()\<close>, hence integers; every synchronous
  section of the class reads the clock as one value \<open>now\<close>, passed as an argument.
  The five tunables of \<^verbatim>\<open>RateLimiterConfig\<close> are integers as well.
\<close>

record RateLimiterConfig =
  maxRequestsPerSecond :: int
  maxRequestsPerMinute :: int
  circuitBreakerThreshold :: int
  circuitBreakerResetMs :: int
  requestTimeoutMs :: int

record RequestRecord =
  timestamp :: int
  success :: bool

text \<open>
  A pending request holds the promise object and the time at which it was registered.
  Promise objects are compared by identity only, so the type \<open>'p\<close> of promise handles
  is a parameter.
\<close>

record 'p PendingRequest =
  promise :: 'p
  pending_timestamp :: int

record 'p RateLimiter =
  config :: RateLimiterConfig
  requestHistory :: "RequestRecord list"
  pendingRequests :: "string \<rightharpoonup> 'p PendingRequest"
  circuitOpen :: bool
  circuitOpenedAt :: int
  consecutiveErrors :: int

definition DEFAULT_CONFIG :: RateLimiterConfig where
  "DEFAULT_CONFIG =
     \<lparr>maxRequestsPerSecond = 20, maxRequestsPerMinute = 1000,
      circuitBreakerThreshold = 10, circuitBreakerResetMs = 30000,
      requestTimeoutMs = 10000\<rparr>"

text \<open>The constructor: a fresh limiter over a given configuration.\<close>

definition newRateLimiter :: "RateLimiterConfig \<Rightarrow> 'p RateLimiter" where
  "newRateLimiter cfg =
     \<lparr>config = cfg, requestHistory = [], pendingRequests = Map.empty,
      circuitOpen = False, circuitOpenedAt = 0, consecutiveErrors = 0\<rparr>"

record RateLimitCheck =
  allowed :: bool
  retryAfterMs :: "int option"

text \<open>
  \<^verbatim>\<open>checkRateLimits\<close>. The first filter is assigned back to the history. The
  per-second branch sorts a filtered copy; the per-minute branch calls \<^verbatim>\<open>sort\<close> on the
  history array itself, which sorts it in place. \<^verbatim>\<open>Array.prototype.sort\<close> is stable,
  as is \<open>sort_key\<close>. Element \<open>[0]\<close> of an empty array is \<^verbatim>\<open>undefined\<close>, which
  selects the fallback.
\<close>

definition checkRateLimits ::
  "'p RateLimiter \<Rightarrow> int \<Rightarrow> RateLimitCheck \<times> 'p RateLimiter" where
  "checkRateLimits s now =
     (let h = filter (\<lambda>r. now - timestamp r < 60000) (requestHistory s);
          s1 = s\<lparr>requestHistory := h\<rparr>;
          lastSecond = filter (\<lambda>r. now - timestamp r < 1000) h
      in if maxRequestsPerSecond (config s) \<le> int (length lastSecond) then
           (\<lparr>allowed = False,
             retryAfterMs = Some (case sort_key timestamp lastSecond of
                                    [] \<Rightarrow> 100
                                  | oldestInWindow # _ \<Rightarrow>
                                      1000 - (now - timestamp oldestInWindow))\<rparr>, s1)
         else if maxRequestsPerMinute (config s) \<le> int (length h) then
           (let sorted = sort_key timestamp h
            in (\<lparr>allowed = False,
                 retryAfterMs = Some (case sorted of
                                        [] \<Rightarrow> 1000
                                      | oldestRequest # _ \<Rightarrow>
                                          60000 - (now - timestamp oldestRequest))\<rparr>,
                s1\<lparr>requestHistory := sorted\<rparr>))
         else (\<lparr>allowed = True, retryAfterMs = None\<rparr>, s1))"

text \<open>\<^verbatim>\<open>checkCircuitBreaker\<close>: the boolean result and the (possibly reset) state.\<close>

definition checkCircuitBreaker :: "'p RateLimiter \<Rightarrow> int \<Rightarrow> bool \<times> 'p RateLimiter" where
  "checkCircuitBreaker s now =
     (if \<not> circuitOpen s then (True, s)
      else if circuitBreakerResetMs (config s) \<le> now - circuitOpenedAt s then
        (True, s\<lparr>circuitOpen := False, consecutiveErrors := 0\<rparr>)
      else (False, s))"

definition recordSuccess :: "'p RateLimiter \<Rightarrow> int \<Rightarrow> 'p RateLimiter" where
  "recordSuccess s now =
     s\<lparr>requestHistory := requestHistory s @ [\<lparr>timestamp = now, success = True\<rparr>],
       consecutiveErrors := 0\<rparr>"

definition recordError :: "'p RateLimiter \<Rightarrow> int \<Rightarrow> 'p RateLimiter" where
  "recordError s now =
     (let s1 = s\<lparr>requestHistory := requestHistory s @ [\<lparr>timestamp = now, success = False\<rparr>],
                 consecutiveErrors := consecutiveErrors s + 1\<rparr>
      in if circuitBreakerThreshold (config s1) \<le> consecutiveErrors s1
         then s1\<lparr>circuitOpen := True, circuitOpenedAt := now\<rparr>
         else s1)"

text \<open>
  \<^verbatim>\<open>execute(key, requestFn)\<close> is an async function; its body up to the first
  \<^verbatim>\<open>await\<close> runs synchronously and is one step of the model. The step ends in one of
  four ways:
  \<^item> \<open>CircuitOpenError ms\<close>: the call throws, the message carrying the hint \<open>ms\<close>;
  \<^item> \<open>ReturnPending p\<close>: the promise \<open>p\<close> of the pending request is returned and
    \<^verbatim>\<open>requestFn\<close> is not called;
  \<^item> \<open>DelayThenRetry ms\<close>: the call awaits \<^verbatim>\<open>delay(ms)\<close> and then re-enters
    \<^verbatim>\<open>execute\<close> with the same arguments, which is a further step at a later time;
  \<^item> \<open>Invoked f p\<close>: \<^verbatim>\<open>executeWithTimeout\<close> has called \<open>f\<close>, and the promise \<open>p\<close>
    built from it is registered under the key and returned.
  The argument \<open>p\<close> is the handle of the promise object that the call creates when it
  starts the operation.
\<close>

datatype ('f, 'p) ExecuteStep =
    CircuitOpenError int
  | ReturnPending 'p
  | DelayThenRetry int
  | Invoked 'f 'p

definition execute ::
  "'p RateLimiter \<Rightarrow> int \<Rightarrow> string \<Rightarrow> 'f \<Rightarrow> 'p \<Rightarrow> ('f, 'p) ExecuteStep \<times> 'p RateLimiter" where
  "execute s now key requestFn p =
     (case checkCircuitBreaker s now of
        (False, s1) \<Rightarrow>
          (CircuitOpenError (circuitBreakerResetMs (config s1) - (now - circuitOpenedAt s1)), s1)
      | (True, s1) \<Rightarrow>
          (case (case pendingRequests s1 key of
                   None \<Rightarrow> None
                 | Some pending \<Rightarrow>
                     if now - pending_timestamp pending < requestTimeoutMs (config s1)
                     then Some pending else None) of
             Some pending \<Rightarrow> (ReturnPending (promise pending), s1)
           | None \<Rightarrow>
               (case checkRateLimits s1 now of
                  (rateLimitCheck, s2) \<Rightarrow>
                    if \<not> allowed rateLimitCheck then
                      (DelayThenRetry (case retryAfterMs rateLimitCheck of
                                         None \<Rightarrow> 100
                                       | Some ms \<Rightarrow> if ms = 0 then 100 else ms), s2)
                    else
                      (Invoked requestFn p,
                       s2\<lparr>pendingRequests :=
                            (pendingRequests s2)(key \<mapsto>
                               \<lparr>promise = p, pending_timestamp = now\<rparr>)\<rparr>))))"

text \<open>
  The callbacks chained on the promise of a started request. When the promise settles,
  the \<^verbatim>\<open>then\<close> callback (\<open>ok = True\<close>) or the \<^verbatim>\<open>catch\<close> callback (\<open>ok = False\<close>) runs:
  it records the outcome and deletes the pending entry stored under the key, whichever
  promise that entry holds.
\<close>

definition onSettled :: "'p RateLimiter \<Rightarrow> int \<Rightarrow> string \<Rightarrow> bool \<Rightarrow> 'p RateLimiter" where
  "onSettled s now key ok =
     (let s1 = (if ok then recordSuccess s now else recordError s now)
      in s1\<lparr>pendingRequests := (pendingRequests s1)(key := None)\<rparr>)"

section \<open>Traces of the coordinator\<close>

text \<open>
  Callers and settling promises interleave on the event loop. A trace is a list of
  timed events: \<open>Call key f\<close> is a call of \<^verbatim>\<open>execute(key, f)\<close> (a first call or the
  re-entry after \<^verbatim>\<open>delay\<close>), and \<open>Settle p ok\<close> is the promise \<open>p\<close> of a started
  request settling, fulfilled (\<open>ok\<close>) or rejected, which runs its callback. Beside the
  limiter the world keeps what the class does not store: the started requests that have
  not settled yet (\<open>inFlight\<close>: promise, key, start time), the log of the operations
  that were actually invoked, the log of the started requests that have settled
  (\<open>settlements\<close>: start time, time of settling), and the next fresh promise handle.
\<close>

datatype 'f Event = Call string 'f | Settle nat bool

record 'f World =
  limiter :: "nat RateLimiter"
  inFlight :: "(nat \<times> string \<times> int) list"
  invocations :: "(int \<times> string \<times> 'f) list"
  settlements :: "(int \<times> int) list"
  nextPromise :: nat

definition newWorld :: "RateLimiterConfig \<Rightarrow> 'f World" where
  "newWorld cfg =
     \<lparr>limiter = newRateLimiter cfg, inFlight = [], invocations = [], settlements = [],
      nextPromise = 0\<rparr>"

fun step :: "'f World \<Rightarrow> int \<times> 'f Event \<Rightarrow> 'f World" where
  "step w (now, Call key requestFn) =
     (case execute (limiter w) now key requestFn (nextPromise w) of
        (Invoked f p, s') \<Rightarrow>
          w\<lparr>limiter := s',
            inFlight := inFlight w @ [(p, key, now)],
            invocations := invocations w @ [(now, key, f)],
            nextPromise := Suc (nextPromise w)\<rparr>
      | (_, s') \<Rightarrow> w\<lparr>limiter := s'\<rparr>)"
| "step w (now, Settle p ok) =
     (case find (\<lambda>(q, _, _). q = p) (inFlight w) of
        None \<Rightarrow> w
      | Some (_, key, startedAt) \<Rightarrow>
          w\<lparr>limiter := onSettled (limiter w) now key ok,
            inFlight := filter (\<lambda>(q, _, _). q \<noteq> p) (inFlight w),
            settlements := settlements w @ [(startedAt, now)]\<rparr>)"

definition run :: "RateLimiterConfig \<Rightarrow> (int \<times> 'f Event) list \<Rightarrow> 'f World" where
  "run cfg evs = foldl step (newWorld cfg) evs"

definition admittedWithin :: "'f World \<Rightarrow> int \<Rightarrow> int \<Rightarrow> nat" where
  "admittedWithin w t len =
     length (filter (\<lambda>(a, _, _). t - a < len \<and> a \<le> t) (invocations w))"

text \<open>
  The number of operations invoked in the trailing interval of length \<open>len\<close> that ends
  at \<open>t\<close>, and the bound on it in terms of the two configured maxima.
\<close>

definition withinRateLimits :: "'f World \<Rightarrow> int \<Rightarrow> bool" where
  "withinRateLimits w t \<longleftrightarrow>
     int (admittedWithin w t 1000) \<le> maxRequestsPerSecond (config (limiter w))
     \<and> int (admittedWithin w t 60000) \<le> maxRequestsPerMinute (config (limiter w))"

text \<open>
  The number of started requests that settled in the trailing interval of length
  \<open>len\<close> that ends at \<open>t\<close>.
\<close>

definition settledWithin :: "'f World \<Rightarrow> int \<Rightarrow> int \<Rightarrow> nat" where
  "settledWithin w t len = length (filter (\<lambda>(a, c). t - c < len) (settlements w))"

text \<open>
  What holds of a world at a time \<open>T\<close> that no event of its trace exceeds: the history
  of the limiter and the log of settlements agree on every window of at most 60 s that
  ends at \<open>T\<close> or later; a request settles no earlier than it starts; promise handles
  in flight are distinct; and every invoked operation is either in flight or settled.
\<close>

definition traceInv :: "'f World \<Rightarrow> int \<Rightarrow> bool" where
  "traceInv w T \<longleftrightarrow>
     (\<forall>now\<ge>T. filter_mset (\<lambda>c. now - c < 60000)
                   (mset (map timestamp (requestHistory (limiter w))))
                = filter_mset (\<lambda>c. now - c < 60000) (mset (map snd (settlements w))))
     \<and> (\<forall>(a, c) \<in> set (settlements w). a \<le> c \<and> c \<le> T)
     \<and> (\<forall>(p, k, a) \<in> set (inFlight w). a \<le> T \<and> p < nextPromise w)
     \<and> distinct (map fst (inFlight w))
     \<and> mset (map fst (invocations w))
         = mset (map (\<lambda>(p, k, a). a) (inFlight w)) + mset (map fst (settlements w))"

text \<open>A limiter whose history holds successful requests recorded at the given times.\<close>

definition exampleLimiter :: "RateLimiterConfig \<Rightarrow> int list \<Rightarrow> nat RateLimiter" where
  "exampleLimiter cfg ts =
     (newRateLimiter cfg)\<lparr>requestHistory := map (\<lambda>t. \<lparr>timestamp = t, success = True\<rparr>) ts\<rparr>"

section \<open>Migration orchestrator: src/utils/migration.ts\<close>

subsection \<open>Data\<close>

text \<open>
  The fields of a track that the migrations read or write. \<open>bpm\<close> is a number or
  \<^verbatim>\<open>null\<close> (\<open>None\<close>); \<open>name\<close> and \<open>artists\<close> are optional strings, \<open>None\<close> when the
  property is absent. The \<open>tracks\<close> object of the dataset is a list of key-value pairs
  in the order of \<^verbatim>\<open>Object.keys\<close>; the keys of an object are distinct.
\<close>

record TrackData =
  rating :: int
  energy :: int
  bpm :: "int option"
  tags :: "string list"
  name :: "string option"
  artists :: "string option"

record TagDataStructure =
  categories :: "string list"
  tracks :: "(string \<times> TrackData) list"

record MigrationFlags =
  cleanupEmptyTracks :: "bool option"
  addTrackMetadata :: "bool option"
  removeTrackInfoCache :: "bool option"

record MigrationState =
  version :: string
  migrations :: MigrationFlags

record MigrationProgress =
  migrationName :: string
  processedUris :: "string list"
  failedUris :: "string list option"
  totalTracks :: nat
  startedAt :: int

record TrackInfo =
  info_name :: string
  info_artists :: string

record Updates =
  upd_name :: "string option"
  upd_artists :: "string option"
  upd_bpm :: "int option"

record TrackMigrationResult =
  result_uri :: string
  result_success :: bool
  result_updates :: Updates
  result_retryable :: bool

text \<open>What a \<^verbatim>\<open>catch\<close> clause of the migration inspects of a thrown value.\<close>

record ErrorObj =
  status :: "int option"
  message :: "string option"

text \<open>The outcome that \<^verbatim>\<open>Promise.allSettled\<close> reports for one promise.\<close>

datatype 'a Settled = Fulfilled 'a | Rejected

text \<open>
  The local store holds, under three keys, the migration state, the progress checkpoint
  and the deprecated track-info cache; \<open>None\<close> is an absent key. Values are kept as
  parsed, so a stored text that \<^verbatim>\<open>JSON.parse\<close> rejects is not represented.
  \<^verbatim>\<open>localStorage.setItem\<close> may throw (the quota is exceeded): \<open>failingWrites\<close> says
  for the coming calls of \<^verbatim>\<open>setItem\<close>, in order, whether the call throws; a call
  beyond the list succeeds. \<^verbatim>\<open>removeItem\<close> has no failure of this kind and always
  removes the key.
\<close>

record LocalStore =
  stored_migrations :: "MigrationState option"
  stored_progress :: "MigrationProgress option"
  stored_trackInfoCache :: "(string \<times> TrackInfo) list option"
  failingWrites :: "bool list"

text \<open>
  The effects of a run: the store, the datasets handed to \<^verbatim>\<open>setTagData\<close> in order,
  the calls of \<^verbatim>\<open>onProgress\<close> and the number of \<^verbatim>\<open>tagify:dataUpdated\<close> events
  dispatched. Two logs record the work of the backfill: \<open>examined\<close> holds the keys that
  the first pass iterates over, \<open>fetched\<close> the keys for which the second pass starts
  an effort, each in the order of the run.
\<close>

record MigWorld =
  store :: LocalStore
  published :: "TagDataStructure list"
  progressReports :: "(nat \<times> nat) list"
  dispatched :: nat
  examined :: "string list"
  fetched :: "string list"

text \<open>
  The collaborators of the backfill. \<open>getTrack env uri n\<close> is what
  \<^verbatim>\<open>spotifyService.getTrack(uri)\<close> yields in attempt \<open>n\<close> of the effort for that record:
  a thrown error, \<^verbatim>\<open>null\<close> or a track info; \<open>getBpm\<close> likewise for
  \<^verbatim>\<open>audioFeaturesService.getBpm(trackId)\<close>. \<open>dateNow\<close> is the clock read when a fresh
  progress record is created.
\<close>

record FetchEnv =
  getTrack :: "string \<Rightarrow> nat \<Rightarrow> ErrorObj + TrackInfo option"
  getBpm :: "string \<Rightarrow> nat \<Rightarrow> ErrorObj + int option"
  dateNow :: int

subsection \<open>Strings, truthiness and sets\<close>

text \<open>\<^verbatim>\<open>s.includes(sub)\<close> and \<^verbatim>\<open>s.startsWith(p)\<close>.\<close>

fun includes_str :: "string \<Rightarrow> string \<Rightarrow> bool" where
  "includes_str [] sub = (sub = [])"
| "includes_str (c # cs) sub = (take (length sub) (c # cs) = sub \<or> includes_str cs sub)"

definition startsWith :: "string \<Rightarrow> string \<Rightarrow> bool" where
  "startsWith s p \<longleftrightarrow> take (length p) s = p"

text \<open>\<^verbatim>\<open>uri.split(":").pop()\<close>: the part after the last colon.\<close>

definition lastSegment :: "string \<Rightarrow> string" where
  "lastSegment uri = rev (takeWhile (\<lambda>c. c \<noteq> CHR '':'') (rev uri))"

text \<open>A string property is truthy when it is present and not empty; a flag when it is \<^verbatim>\<open>true\<close>.\<close>

definition truthy :: "string option \<Rightarrow> bool" where
  "truthy v \<longleftrightarrow> (case v of None \<Rightarrow> False | Some s \<Rightarrow> s \<noteq> [])"

definition flagSet :: "bool option \<Rightarrow> bool" where
  "flagSet v \<longleftrightarrow> v = Some True"

text \<open>
  A \<^verbatim>\<open>Set<string>\<close> is a duplicate-free list in insertion order, which is the order
  \<^verbatim>\<open>Array.from\<close> gives back.
\<close>

definition setAdd :: "string \<Rightarrow> string list \<Rightarrow> string list" where
  "setAdd x s = (if x \<in> set s then s else s @ [x])"

definition setDelete :: "string \<Rightarrow> string list \<Rightarrow> string list" where
  "setDelete x s = filter (\<lambda>y. y \<noteq> x) s"

definition setFromArray :: "string list \<Rightarrow> string list" where
  "setFromArray xs = foldl (\<lambda>s x. setAdd x s) [] xs"

subsection \<open>Helpers and the store\<close>

definition isRetryableError :: "ErrorObj option \<Rightarrow> bool" where
  "isRetryableError error =
     (case error of
        None \<Rightarrow> False
      | Some e \<Rightarrow>
          if status e = Some 429 then True
          else if (case message e of
                     None \<Rightarrow> False
                   | Some m \<Rightarrow> includes_str m ''network'' \<or> includes_str m ''fetch'') then True
          else if (case message e of None \<Rightarrow> False | Some m \<Rightarrow> includes_str m ''timeout'')
               then True
          else False)"

definition getBackoffDelay :: "nat \<Rightarrow> int \<Rightarrow> int" where
  "getBackoffDelay attempt baseDelay = min (baseDelay * 2 ^ attempt) 30000"

definition isTrackEmpty :: "TrackData \<Rightarrow> bool" where
  "isTrackEmpty trackData \<longleftrightarrow>
     rating trackData = 0 \<and> energy trackData = 0 \<and> tags trackData = []"

definition getMigrationState :: "LocalStore \<Rightarrow> MigrationState" where
  "getMigrationState st =
     (case stored_migrations st of
        Some saved \<Rightarrow> saved
      | None \<Rightarrow>
          \<lparr>version = ''0.0.0'',
           migrations = \<lparr>cleanupEmptyTracks = None, addTrackMetadata = None,
                         removeTrackInfoCache = None\<rparr>\<rparr>)"

text \<open>
  A call of \<^verbatim>\<open>setItem\<close> inside \<^verbatim>\<open>try\<close>: when the call throws, the \<^verbatim>\<open>catch\<close> clause
  logs the error and the store keeps its content.
\<close>

definition tryWrite :: "(LocalStore \<Rightarrow> LocalStore) \<Rightarrow> LocalStore \<Rightarrow> LocalStore" where
  "tryWrite setItem st =
     (case failingWrites st of
        [] \<Rightarrow> setItem st
      | throws # rest \<Rightarrow> (if throws then st else setItem st)\<lparr>failingWrites := rest\<rparr>)"

definition saveMigrationState :: "MigrationState \<Rightarrow> MigWorld \<Rightarrow> MigWorld" where
  "saveMigrationState state w =
     w\<lparr>store := tryWrite (\<lambda>st. st\<lparr>stored_migrations := Some state\<rparr>) (store w)\<rparr>"

definition getMigrationProgress :: "LocalStore \<Rightarrow> MigrationProgress option" where
  "getMigrationProgress st = stored_progress st"

definition saveMigrationProgress :: "MigrationProgress option \<Rightarrow> MigWorld \<Rightarrow> MigWorld" where
  "saveMigrationProgress progress w =
     (case progress of
        None \<Rightarrow> w\<lparr>store := (store w)\<lparr>stored_progress := None\<rparr>\<rparr>
      | Some p \<Rightarrow> w\<lparr>store := tryWrite (\<lambda>st. st\<lparr>stored_progress := Some p\<rparr>) (store w)\<rparr>)"

definition setTagData :: "TagDataStructure \<Rightarrow> MigWorld \<Rightarrow> MigWorld" where
  "setTagData d w = w\<lparr>published := published w @ [d]\<rparr>"

text \<open>
  Modelled from the spec: \<^verbatim>\<open>TrackInfoCacheManager\<close> (module \<^verbatim>\<open>./TrackInfoCache\<close>, not
  part of the sources at hand) is the secondary local cache of track infos; it is taken
  to live under the store key \<^verbatim>\<open>tagify:trackInfoCache\<close> that the third migration
  removes.
\<close>

definition getTrackInfo :: "LocalStore \<Rightarrow> string \<Rightarrow> TrackInfo option" where
  "getTrackInfo st uri =
     (case stored_trackInfoCache st of None \<Rightarrow> None | Some c \<Rightarrow> map_of c uri)"

definition removeTrackInfo :: "string \<Rightarrow> MigWorld \<Rightarrow> MigWorld" where
  "removeTrackInfo uri w =
     w\<lparr>store := (store w)\<lparr>stored_trackInfoCache :=
          map_option (filter (\<lambda>(k, _). k \<noteq> uri)) (stored_trackInfoCache (store w))\<rparr>\<rparr>"

subsection \<open>Migration 1: cleanup of empty tracks\<close>

definition cleanupEmptyTracksMigration ::
  "TagDataStructure \<Rightarrow> MigWorld \<Rightarrow> TagDataStructure \<times> MigWorld" where
  "cleanupEmptyTracksMigration currentData w =
     (currentData\<lparr>tracks := filter (\<lambda>(trackUri, trackData). \<not> isTrackEmpty trackData)
                                (tracks currentData)\<rparr>,
      foldl (\<lambda>w' (trackUri, trackData).
               if isTrackEmpty trackData then removeTrackInfo trackUri w' else w')
            w (tracks currentData))"

subsection \<open>Migration 2: backfill of track metadata and BPM\<close>

definition MAX_RETRIES_PER_TRACK :: nat where
  "MAX_RETRIES_PER_TRACK = 3"

definition MAX_CONSECUTIVE_FAILURES :: nat where
  "MAX_CONSECUTIVE_FAILURES = 10"

definition BATCH_SIZE :: nat where
  "BATCH_SIZE = 5"

definition SAVE_EVERY_N_BATCHES :: nat where
  "SAVE_EVERY_N_BATCHES = 10"

definition needsMetadata :: "TrackData \<Rightarrow> bool" where
  "needsMetadata track \<longleftrightarrow> \<not> truthy (name track) \<or> \<not> truthy (artists track)"

definition needsBpm :: "TrackData \<Rightarrow> bool" where
  "needsBpm track \<longleftrightarrow> bpm track = None"

text \<open>
  The keys of the tracks that need metadata or BPM. A key taken from \<^verbatim>\<open>Object.keys\<close>
  always has a value, so the lookup does not fail.
\<close>

definition tracksNeedingWork :: "TagDataStructure \<Rightarrow> string list" where
  "tracksNeedingWork currentData =
     filter (\<lambda>uri.
        if startsWith uri ''spotify:local:'' then False
        else (case map_of (tracks currentData) uri of
                None \<Rightarrow> False
              | Some track \<Rightarrow> needsMetadata track \<or> needsBpm track))
       (map fst (tracks currentData))"

text \<open>
  The progress record and the two sets at the start: resumed from the stored progress
  when its name is that of this migration, fresh otherwise.
\<close>

definition resumeProgress ::
  "FetchEnv \<Rightarrow> MigrationProgress option \<Rightarrow> nat \<Rightarrow>
     string list \<times> string list \<times> MigrationProgress" where
  "resumeProgress env saved totalWork =
     (let fresh = ([], [], \<lparr>migrationName = ''addTrackMetadata'', processedUris = [],
                            failedUris = Some [], totalTracks = totalWork,
                            startedAt = dateNow env\<rparr>)
      in case saved of
           None \<Rightarrow> fresh
         | Some progress \<Rightarrow>
             if migrationName progress = ''addTrackMetadata''
             then (setFromArray (processedUris progress),
                   setFromArray (case failedUris progress of None \<Rightarrow> [] | Some f \<Rightarrow> f),
                   progress)
             else fresh)"

definition remainingTracks :: "string list \<Rightarrow> string list \<Rightarrow> string list \<Rightarrow> string list" where
  "remainingTracks work processed failed =
     filter (\<lambda>uri. uri \<notin> set processed \<or> uri \<in> set failed) work"

text \<open>Assignment to \<^verbatim>\<open>tracks[uri]\<close> of a key that exists keeps its position.\<close>

definition updateTrack ::
  "string \<Rightarrow> (TrackData \<Rightarrow> TrackData) \<Rightarrow> TagDataStructure \<Rightarrow> TagDataStructure" where
  "updateTrack uri f d =
     d\<lparr>tracks := map (\<lambda>(k, t). if k = uri then (k, f t) else (k, t)) (tracks d)\<rparr>"

record PassState =
  updatedData :: TagDataStructure
  processedSet :: "string list"
  failedSet :: "string list"
  stillNeedWork :: "string list"
  consecutiveFailures :: nat
  batchFailures :: nat
  progress :: MigrationProgress
  world :: MigWorld

text \<open>First pass, one key: resolve the metadata from the cache where it is there.\<close>

definition cacheStep :: "PassState \<Rightarrow> string \<Rightarrow> PassState" where
  "cacheStep st0 uri =
     (let st = st0\<lparr>world := (world st0)\<lparr>examined := examined (world st0) @ [uri]\<rparr>\<rparr>
      in
      if uri \<in> set (failedSet st) \<and> uri \<notin> set (processedSet st)
      then st\<lparr>stillNeedWork := stillNeedWork st @ [uri]\<rparr>
      else
        (case map_of (tracks (updatedData st)) uri of
           None \<Rightarrow> st
         | Some track \<Rightarrow>
             (let cachedInfo =
                    (if needsMetadata track then getTrackInfo (store (world st)) uri else None);
                  st1 = (case cachedInfo of
                           None \<Rightarrow> st
                         | Some c \<Rightarrow>
                             st\<lparr>updatedData :=
                                  updateTrack uri
                                    (\<lambda>t. t\<lparr>name := Some (info_name c),
                                            artists := Some (info_artists c)\<rparr>)
                                    (updatedData st)\<rparr>);
                  metadataResolved = (\<not> needsMetadata track \<or> cachedInfo \<noteq> None)
              in if \<not> metadataResolved \<or> needsBpm track
                 then st1\<lparr>stillNeedWork := stillNeedWork st1 @ [uri]\<rparr>
                 else st1\<lparr>processedSet := setAdd uri (processedSet st1),
                          failedSet := setDelete uri (failedSet st1)\<rparr>)))"

text \<open>
  Second pass, the effort for one record. \<open>tryFetch\<close> is the body of the \<^verbatim>\<open>try\<close>
  block in attempt \<open>n\<close>: \<open>Some e\<close> when a fetcher threw \<open>e\<close>, together with the updates
  collected up to that point, which the next attempt keeps.
\<close>

definition tryFetch ::
  "FetchEnv \<Rightarrow> string \<Rightarrow> bool \<Rightarrow> bool \<Rightarrow> Updates \<Rightarrow> nat \<Rightarrow> ErrorObj option \<times> Updates" where
  "tryFetch env uri needsMeta needsB updates n =
     (case (if needsMeta \<and> \<not> truthy (upd_name updates) then
              (case getTrack env uri n of
                 Inl e \<Rightarrow> (Some e, updates)
               | Inr None \<Rightarrow> (None, updates)
               | Inr (Some trackInfo) \<Rightarrow>
                   (None, updates\<lparr>upd_name := Some (info_name trackInfo),
                                  upd_artists := Some (info_artists trackInfo)\<rparr>))
            else (None, updates)) of
        (Some e, u1) \<Rightarrow> (Some e, u1)
      | (None, u1) \<Rightarrow>
          if needsB \<and> upd_bpm u1 = None then
            (let trackId = lastSegment uri
             in if trackId \<noteq> [] then
                  (case getBpm env trackId n of
                     Inl e \<Rightarrow> (Some e, u1)
                   | Inr None \<Rightarrow> (None, u1)
                   | Inr (Some b) \<Rightarrow> (None, u1\<lparr>upd_bpm := Some b\<rparr>))
                else (None, u1))
          else (None, u1))"

text \<open>
  The trace of an effort: for every attempt made, the error it threw (\<open>None\<close> when it
  returned), and the delays slept between attempts.
\<close>

record EffortTrace =
  attempts :: "ErrorObj option list"
  sleeps :: "int list"

function retryLoop ::
  "FetchEnv \<Rightarrow> string \<Rightarrow> bool \<Rightarrow> bool \<Rightarrow> Updates \<Rightarrow> nat \<Rightarrow> ErrorObj option \<Rightarrow> EffortTrace
     \<Rightarrow> TrackMigrationResult \<times> EffortTrace" where
  "retryLoop env uri needsMeta needsB updates retryCount lastError tr =
     (if retryCount < MAX_RETRIES_PER_TRACK then
        (case tryFetch env uri needsMeta needsB updates retryCount of
           (None, u) \<Rightarrow>
             (\<lparr>result_uri = uri, result_success = True, result_updates = u,
               result_retryable = False\<rparr>,
              tr\<lparr>attempts := attempts tr @ [None]\<rparr>)
         | (Some error, u) \<Rightarrow>
             (let tr1 = tr\<lparr>attempts := attempts tr @ [Some error]\<rparr>
              in if isRetryableError (Some error) \<and> retryCount + 1 < MAX_RETRIES_PER_TRACK
                 then retryLoop env uri needsMeta needsB u (retryCount + 1) (Some error)
                        (tr1\<lparr>sleeps := sleeps tr1 @ [getBackoffDelay (retryCount + 1) 1000]\<rparr>)
                 else (\<lparr>result_uri = uri, result_success = False, result_updates = u,
                        result_retryable = isRetryableError (Some error)\<rparr>, tr1)))
      else (\<lparr>result_uri = uri, result_success = False, result_updates = updates,
             result_retryable = isRetryableError lastError\<rparr>, tr))"
  by pat_completeness auto
termination
  by (relation "measure (\<lambda>(env, uri, nm, nb, u, retryCount, e, tr).
                  MAX_RETRIES_PER_TRACK - retryCount)") auto

declare retryLoop.simps [simp del]

definition emptyUpdates :: Updates where
  "emptyUpdates = \<lparr>upd_name = None, upd_artists = None, upd_bpm = None\<rparr>"

text \<open>
  The async callback of \<^verbatim>\<open>batch.map\<close>. Reading a property of a missing track throws
  before the \<^verbatim>\<open>try\<close> block, which rejects the promise.
\<close>

definition perRecordEffort ::
  "FetchEnv \<Rightarrow> TagDataStructure \<Rightarrow> string \<Rightarrow> TrackMigrationResult Settled \<times> EffortTrace" where
  "perRecordEffort env d uri =
     (case map_of (tracks d) uri of
        None \<Rightarrow> (Rejected, \<lparr>attempts = [], sleeps = []\<rparr>)
      | Some track \<Rightarrow>
          (case retryLoop env uri (needsMetadata track) (needsBpm track) emptyUpdates 0 None
                  \<lparr>attempts = [], sleeps = []\<rparr> of
             (r, tr) \<Rightarrow> (Fulfilled r, tr)))"

text \<open>The spread \<^verbatim>\<open>{...track, ...updates}\<close>: the properties present in the updates win.\<close>

definition mergeUpdates :: "Updates \<Rightarrow> TrackData \<Rightarrow> TrackData" where
  "mergeUpdates u t =
     t\<lparr>name := (case upd_name u of None \<Rightarrow> name t | Some n \<Rightarrow> Some n),
       artists := (case upd_artists u of None \<Rightarrow> artists t | Some a \<Rightarrow> Some a),
       bpm := (case upd_bpm u of None \<Rightarrow> bpm t | Some b \<Rightarrow> Some b)\<rparr>"

definition hasKeys :: "Updates \<Rightarrow> bool" where
  "hasKeys u \<longleftrightarrow> upd_name u \<noteq> None \<or> upd_artists u \<noteq> None \<or> upd_bpm u \<noteq> None"

text \<open>The body of the loop over the settled results of a batch.\<close>

definition processResult :: "PassState \<Rightarrow> TrackMigrationResult Settled \<Rightarrow> PassState" where
  "processResult st result =
     (case result of
        Fulfilled v \<Rightarrow>
          if result_success v then
            st\<lparr>updatedData :=
                 (if hasKeys (result_updates v)
                  then updateTrack (result_uri v) (mergeUpdates (result_updates v))
                         (updatedData st)
                  else updatedData st),
               processedSet := setAdd (result_uri v) (processedSet st),
               failedSet := setDelete (result_uri v) (failedSet st),
               consecutiveFailures := 0\<rparr>
          else if result_retryable v then
            st\<lparr>batchFailures := batchFailures st + 1,
               failedSet := setAdd (result_uri v) (failedSet st)\<rparr>
          else
            st\<lparr>batchFailures := batchFailures st + 1,
               processedSet := setAdd (result_uri v) (processedSet st),
               failedSet := setDelete (result_uri v) (failedSet st)\<rparr>
      | Rejected \<Rightarrow>
          st\<lparr>batchFailures := batchFailures st + 1,
             consecutiveFailures := consecutiveFailures st + 1\<rparr>)"

text \<open>
  One batch up to the pause check: the efforts of the batch all start on the working
  dataset as it is before the batch, their results are processed in the order of the
  batch, and the failures of the batch are added to the consecutive-failure count. The
  delay between batches only affects timing and is left out.
\<close>

definition runBatch :: "FetchEnv \<Rightarrow> string list \<Rightarrow> nat \<Rightarrow> PassState \<Rightarrow> PassState" where
  "runBatch env still i st =
     (let batch = take BATCH_SIZE (drop i still);
          results = map (\<lambda>uri. fst (perRecordEffort env (updatedData st) uri)) batch;
          st1 = foldl processResult
                  (st\<lparr>batchFailures := 0,
                     world := (world st)\<lparr>fetched := fetched (world st) @ batch\<rparr>\<rparr>)
                  results
      in if 0 < batchFailures st1
         then st1\<lparr>consecutiveFailures := consecutiveFailures st1 + batchFailures st1\<rparr>
         else st1)"

definition checkpoint :: "PassState \<Rightarrow> PassState" where
  "checkpoint st =
     (let p = (progress st)\<lparr>processedUris := processedSet st,
                            failedUris := Some (failedSet st)\<rparr>
      in st\<lparr>progress := p,
            world := setTagData (updatedData st) (saveMigrationProgress (Some p) (world st))\<rparr>)"

definition pausedError :: ErrorObj where
  "pausedError =
     \<lparr>status = None,
      message = Some ''Migration paused due to repeated failures. Will retry on next app launch.''\<rparr>"

definition reportProgress :: "nat \<Rightarrow> PassState \<Rightarrow> PassState" where
  "reportProgress totalWork st =
     st\<lparr>world := (world st)\<lparr>progressReports :=
          progressReports (world st) @ [(length (processedSet st), totalWork)]\<rparr>\<rparr>"

text \<open>
  The loop over the batches of the list \<open>still\<close>, which is \<^verbatim>\<open>stillNeedWork\<close> as the
  first pass left it. The result is the thrown error, if any, and the state reached.
\<close>

function networkPass ::
  "FetchEnv \<Rightarrow> nat \<Rightarrow> string list \<Rightarrow> nat \<Rightarrow> PassState
     \<Rightarrow> ErrorObj option \<times> PassState" where
  "networkPass env totalWork still i st =
     (if i < length still then
        (let st1 = runBatch env still i st
         in if MAX_CONSECUTIVE_FAILURES \<le> consecutiveFailures st1
            then (Some pausedError, checkpoint st1)
            else
              (let st2 = reportProgress totalWork st1;
                   batchNumber = i div BATCH_SIZE;
                   st3 = (if 0 < batchNumber \<and> batchNumber mod SAVE_EVERY_N_BATCHES = 0
                          then checkpoint st2 else st2)
               in networkPass env totalWork still (i + BATCH_SIZE) st3))
      else (None, st))"
  by pat_completeness auto
termination
  by (relation "measure (\<lambda>(env, totalWork, still, i, st). length still - i)")
    (auto simp: BATCH_SIZE_def)

declare networkPass.simps [simp del]

text \<open>
  \<^verbatim>\<open>addTrackMetadataMigration\<close>: the thrown error or the returned dataset, and the
  effects.
\<close>

definition addTrackMetadataMigration ::
  "FetchEnv \<Rightarrow> TagDataStructure \<Rightarrow> MigWorld \<Rightarrow> (ErrorObj + TagDataStructure) \<times> MigWorld" where
  "addTrackMetadataMigration env currentData w =
     (let work = tracksNeedingWork currentData
      in if work = [] then (Inr currentData, w)
         else
           (case resumeProgress env (getMigrationProgress (store w)) (length work) of
              (processed0, failed0, progress0) \<Rightarrow>
                (let remaining = remainingTracks work processed0 failed0;
                     c = foldl cacheStep
                           \<lparr>updatedData = currentData, processedSet = processed0,
                            failedSet = failed0, stillNeedWork = [],
                            consecutiveFailures = 0, batchFailures = 0,
                            progress = progress0, world = w\<rparr>
                           remaining;
                     resolvedFromCache = length remaining - length (stillNeedWork c);
                     c1 = (if 0 < resolvedFromCache
                           then (let p = (progress c)\<lparr>processedUris := processedSet c,
                                                        failedUris := Some (failedSet c)\<rparr>
                                 in c\<lparr>progress := p,
                                      world := saveMigrationProgress (Some p)
                                                 (setTagData (updatedData c) (world c))\<rparr>)
                           else c)
                 in case networkPass env (length work) (stillNeedWork c1) 0 c1 of
                      (Some e, st) \<Rightarrow> (Inl e, world st)
                    | (None, st) \<Rightarrow>
                        (Inr (updatedData st),
                         saveMigrationProgress None
                           (setTagData (updatedData st) (world st))))))"

text \<open>
  The state in which \<^verbatim>\<open>addTrackMetadataMigration\<close> enters the loop over the batches,
  when there is work: the sets taken from the stored progress, the first pass over the
  remaining keys, and the save that follows it.
\<close>

definition firstPass :: "FetchEnv \<Rightarrow> TagDataStructure \<Rightarrow> MigWorld \<Rightarrow> PassState" where
  "firstPass env currentData w =
     (let work = tracksNeedingWork currentData
      in case resumeProgress env (getMigrationProgress (store w)) (length work) of
           (processed0, failed0, progress0) \<Rightarrow>
             (let remaining = remainingTracks work processed0 failed0;
                  c = foldl cacheStep
                        \<lparr>updatedData = currentData, processedSet = processed0,
                         failedSet = failed0, stillNeedWork = [],
                         consecutiveFailures = 0, batchFailures = 0,
                         progress = progress0, world = w\<rparr>
                        remaining;
                  resolvedFromCache = length remaining - length (stillNeedWork c)
              in if 0 < resolvedFromCache
                 then (let p = (progress c)\<lparr>processedUris := processedSet c,
                                              failedUris := Some (failedSet c)\<rparr>
                       in c\<lparr>progress := p,
                            world := saveMigrationProgress (Some p)
                                       (setTagData (updatedData c) (world c))\<rparr>)
                 else c))"

subsection \<open>The driver\<close>

text \<open>The test of the \<^verbatim>\<open>catch\<close> clause of the driver.\<close>

definition isPauseError :: "ErrorObj \<Rightarrow> bool" where
  "isPauseError error \<longleftrightarrow>
     (case message error of None \<Rightarrow> False | Some m \<Rightarrow> includes_str m ''Migration paused'')"

text \<open>
  The end of \<^verbatim>\<open>runMigrations\<close>: the third migration, then the update of version and
  state.
\<close>

definition finishMigrations ::
  "string \<Rightarrow> MigrationState \<Rightarrow> bool \<Rightarrow> MigWorld \<Rightarrow> bool \<times> MigWorld" where
  "finishMigrations CURRENT_VERSION migrationState hasChanges w =
     (case (if \<not> flagSet (removeTrackInfoCache (migrations migrationState))
            then (migrationState\<lparr>migrations :=
                     (migrations migrationState)\<lparr>removeTrackInfoCache := Some True\<rparr>\<rparr>,
                  True,
                  w\<lparr>store := (store w)\<lparr>stored_trackInfoCache := None\<rparr>\<rparr>)
            else (migrationState, hasChanges, w)) of
        (ms, hc, w1) \<Rightarrow>
          if hc \<or> version ms \<noteq> CURRENT_VERSION
          then (hc, (saveMigrationState (ms\<lparr>version := CURRENT_VERSION\<rparr>) w1)
                      \<lparr>dispatched := dispatched w1 + 1\<rparr>)
          else (hc, w1))"

text \<open>
  \<^verbatim>\<open>runMigrations\<close>, over the running version and over the second migration as a
  function, so that the \<^verbatim>\<open>catch\<close> clause is defined for whatever that migration
  throws. \<open>cleanupStep\<close> is the block of the first migration; it yields the migration
  state, \<^verbatim>\<open>hasChanges\<close>, the dataset and the effects. \<open>Inl e\<close> is the error \<open>e\<close>
  thrown to the caller.
\<close>

definition cleanupStep ::
  "MigrationState \<Rightarrow> TagDataStructure \<Rightarrow> MigWorld \<Rightarrow>
     MigrationState \<times> bool \<times> TagDataStructure \<times> MigWorld" where
  "cleanupStep migrationState currentData w =
     (if \<not> flagSet (cleanupEmptyTracks (migrations migrationState))
      then (case cleanupEmptyTracksMigration currentData w of
              (d, w') \<Rightarrow>
                (migrationState\<lparr>migrations :=
                   (migrations migrationState)\<lparr>cleanupEmptyTracks := Some True\<rparr>\<rparr>,
                 True, d, setTagData d w'))
      else (migrationState, False, currentData, w))"

definition runMigrationsWith ::
  "(TagDataStructure \<Rightarrow> MigWorld \<Rightarrow> (ErrorObj + TagDataStructure) \<times> MigWorld) \<Rightarrow>
     string \<Rightarrow> TagDataStructure \<Rightarrow> MigWorld \<Rightarrow> (ErrorObj + bool) \<times> MigWorld" where
  "runMigrationsWith backfill CURRENT_VERSION currentData w =
     (if tracks currentData = [] then (Inr False, w)
      else
        (case cleanupStep (getMigrationState (store w)) currentData w of
           (ms1, hc1, d1, w1) \<Rightarrow>
             if \<not> flagSet (addTrackMetadata (migrations ms1)) then
               (case backfill d1 w1 of
                  (Inr d2, w2) \<Rightarrow>
                    (case finishMigrations CURRENT_VERSION
                            (ms1\<lparr>migrations :=
                               (migrations ms1)\<lparr>addTrackMetadata := Some True\<rparr>\<rparr>)
                            True w2 of
                       (hc, w3) \<Rightarrow> (Inr hc, w3))
                | (Inl error, w2) \<Rightarrow>
                    if isPauseError error
                    then (case finishMigrations CURRENT_VERSION ms1 hc1 w2 of
                            (hc, w3) \<Rightarrow> (Inr hc, w3))
                    else (Inl error, w2))
             else (case finishMigrations CURRENT_VERSION ms1 hc1 w1 of
                     (hc, w3) \<Rightarrow> (Inr hc, w3))))"

definition runMigrations ::
  "FetchEnv \<Rightarrow> string \<Rightarrow> TagDataStructure \<Rightarrow> MigWorld \<Rightarrow> (ErrorObj + bool) \<times> MigWorld" where
  "runMigrations env = runMigrationsWith (addTrackMetadataMigration env)"

definition needsMigrations :: "string \<Rightarrow> LocalStore \<Rightarrow> bool" where
  "needsMigrations CURRENT_VERSION st =
     (let migrationState = getMigrationState st
      in version migrationState \<noteq> CURRENT_VERSION
         \<or> \<not> flagSet (cleanupEmptyTracks (migrations migrationState))
         \<or> \<not> flagSet (addTrackMetadata (migrations migrationState)))"

subsection \<open>Views and example inputs\<close>




text \<open>
  Four rated tracks without name, artists and BPM. For track A the fetchers answer at
  once; for B they throw a rate-limit error twice and then answer; for C they throw an
  error that is not retryable; for D they always throw a rate-limit error.
\<close>

definition exampleTrack :: TrackData where
  "exampleTrack =
     \<lparr>rating = 3, energy = 0, bpm = None, tags = [], name = None, artists = None\<rparr>"

definition exampleData :: TagDataStructure where
  "exampleData =
     \<lparr>categories = [],
      tracks = [(''t:A'', exampleTrack), (''t:B'', exampleTrack),
                (''t:C'', exampleTrack), (''t:D'', exampleTrack)]\<rparr>"

definition rateLimited :: ErrorObj where
  "rateLimited = \<lparr>status = Some 429, message = Some ''Too Many Requests''\<rparr>"

definition badRequest :: ErrorObj where
  "badRequest = \<lparr>status = Some 400, message = Some ''Bad Request''\<rparr>"

definition exampleEnv :: FetchEnv where
  "exampleEnv =
     \<lparr>getTrack = (\<lambda>uri n.
          if uri = ''t:A'' then Inr (Some \<lparr>info_name = ''Song A'', info_artists = ''Artist''\<rparr>)
          else if uri = ''t:B'' then
            (if n < 2 then Inl rateLimited
             else Inr (Some \<lparr>info_name = ''Song B'', info_artists = ''Artist''\<rparr>))
          else if uri = ''t:C'' then Inl badRequest
          else Inl rateLimited),
      getBpm = (\<lambda>trackId n. Inr (Some 120)),
      dateNow = 1000\<rparr>"

definition emptyStore :: LocalStore where
  "emptyStore =
     \<lparr>stored_migrations = None, stored_progress = None, stored_trackInfoCache = None,
      failingWrites = []\<rparr>"

definition exampleWorld :: MigWorld where
  "exampleWorld =
     \<lparr>store = emptyStore, published = [], progressReports = [], dispatched = 0,
      examined = [], fetched = []\<rparr>"








text \<open>Ten such tracks, and fetchers that always throw a rate-limit error.\<close>

definition tenTracks :: TagDataStructure where
  "tenTracks =
     \<lparr>categories = [],
      tracks = map (\<lambda>k. (''t:'' @ [k], exampleTrack)) ''0123456789''\<rparr>"

definition failingEnv :: FetchEnv where
  "failingEnv =
     \<lparr>getTrack = (\<lambda>uri n. Inl rateLimited), getBpm = (\<lambda>trackId n. Inl rateLimited),
      dateNow = 1000\<rparr>"




definition completeData :: TagDataStructure where
  "completeData =
     \<lparr>categories = [],
      tracks = [(''t:A'', exampleTrack\<lparr>bpm := Some 120, name := Some ''Song A'',
                                       artists := Some ''Artist''\<rparr>)]\<rparr>"

text \<open>
  The run over the ten tracks with the failing fetchers, from an empty store whose coming
  writes fail as \<open>fw\<close> says: the world after the first migration, and the states of
  the network pass at its start, after the first batch and after the second.
\<close>

definition tenKeys :: "string list" where
  "tenKeys = map (\<lambda>k. ''t:'' @ [k]) ''0123456789''"

definition tenWorld :: "bool list \<Rightarrow> MigWorld" where
  "tenWorld fw = exampleWorld\<lparr>store := emptyStore\<lparr>failingWrites := fw\<rparr>\<rparr>"

definition pass0 :: "bool list \<Rightarrow> PassState" where
  "pass0 fw =
     \<lparr>updatedData = tenTracks, processedSet = [], failedSet = [], stillNeedWork = tenKeys,
      consecutiveFailures = 0, batchFailures = 0,
      progress = \<lparr>migrationName = ''addTrackMetadata'', processedUris = [],
                  failedUris = Some [], totalTracks = 10, startedAt = 1000\<rparr>,
      world = (setTagData tenTracks (tenWorld fw))\<lparr>examined := tenKeys\<rparr>\<rparr>"

definition pass5 :: "bool list \<Rightarrow> PassState" where
  "pass5 fw =
     reportProgress 10
       ((pass0 fw)\<lparr>failedSet := take 5 tenKeys, consecutiveFailures := 5, batchFailures := 5,
                   world := (world (pass0 fw))\<lparr>fetched := take 5 tenKeys\<rparr>\<rparr>)"

definition pass10 :: "bool list \<Rightarrow> PassState" where
  "pass10 fw =
     (pass5 fw)\<lparr>failedSet := tenKeys, consecutiveFailures := 10, batchFailures := 5,
                world := (world (pass5 fw))\<lparr>fetched := tenKeys\<rparr>\<rparr>"

section \<open>Properties of the rate-limit check\<close>

lemma sort_key_hd_Min:
  fixes f :: "'a \<Rightarrow> int"
  assumes "sort_key f xs = y # ys"
  shows "f y = Min (f ` set xs)"
proof -
  have srt: "sorted (map f (y # ys))"
    using sorted_sort_key [of f xs] assms by simp
  have st: "set (y # ys) = set xs"
    using set_sort [of f xs] assms by simp
  have "xs \<noteq> []" using assms by auto
  show ?thesis
  proof (rule Min_eqI [symmetric])
    show "finite (f ` set xs)" by simp
    show "f y \<in> f ` set xs" using st by auto
  next
    fix v assume "v \<in> f ` set xs"
    then obtain x where "x \<in> set (y # ys)" "v = f x" using st by auto
    then show "f y \<le> v" using srt by auto
  qed
qed

text \<open>
  C4. \<^verbatim>\<open>checkRateLimits\<close> discards every history entry that is 60 s old or older and
  keeps all the others, so the retained history holds no older entry. It answers
  "not allowed" exactly when the number of entries of the last second is at least
  \<open>maxRequestsPerSecond\<close> or the number of retained entries is at least
  \<open>maxRequestsPerMinute\<close>. The wait time is the time until the oldest entry of the
  violated window leaves it, with the fallbacks 100 ms (per second) and 1000 ms (per
  minute) when the window is empty.
\<close>

theorem checkRateLimits_window:
  fixes s :: "'p RateLimiter" and now :: int
  shows
  "(let kept = filter (\<lambda>r. now - timestamp r < 60000) (requestHistory s);
        lastSecond = filter (\<lambda>r. now - timestamp r < 1000) (requestHistory s);
        res = fst (checkRateLimits s now);
        s' = snd (checkRateLimits s now)
    in mset (requestHistory s') = mset kept
       \<and> (\<forall>r \<in> set (requestHistory s'). now - timestamp r < 60000)
       \<and> (\<not> allowed res \<longleftrightarrow>
            maxRequestsPerSecond (config s) \<le> int (length lastSecond)
            \<or> maxRequestsPerMinute (config s) \<le> int (length kept))
       \<and> (maxRequestsPerSecond (config s) \<le> int (length lastSecond) \<longrightarrow>
            retryAfterMs res =
              Some (if lastSecond = [] then 100
                    else 1000 - (now - Min (timestamp ` set lastSecond))))
       \<and> (\<not> maxRequestsPerSecond (config s) \<le> int (length lastSecond)
            \<and> maxRequestsPerMinute (config s) \<le> int (length kept) \<longrightarrow>
            retryAfterMs res =
              Some (if kept = [] then 1000
                    else 60000 - (now - Min (timestamp ` set kept))))
       \<and> (allowed res \<longrightarrow> retryAfterMs res = None))"
proof -
  define kept where "kept = filter (\<lambda>r. now - timestamp r < 60000) (requestHistory s)"
  define lastSecond where "lastSecond = filter (\<lambda>r. now - timestamp r < 1000) (requestHistory s)"
  have ls: "filter (\<lambda>r. now - timestamp r < 1000) kept = lastSecond"
    unfolding kept_def lastSecond_def by (simp, rule filter_cong, auto)
  have sec: "retryAfterMs (fst (checkRateLimits s now)) =
              Some (if lastSecond = [] then 100
                    else 1000 - (now - Min (timestamp ` set lastSecond)))"
    if "maxRequestsPerSecond (config s) \<le> int (length lastSecond)"
  proof (cases "sort_key timestamp lastSecond")
    case Nil
    then have "lastSecond = []" by (metis length_sort list.size(3) length_0_conv)
    then show ?thesis using that ls
      by (simp add: checkRateLimits_def Let_def kept_def [symmetric])
  next
    case (Cons y ys)
    then have ne: "lastSecond \<noteq> []" by auto
    show ?thesis using that ls Cons ne sort_key_hd_Min [OF Cons]
      by (simp add: checkRateLimits_def Let_def kept_def [symmetric])
  qed
  have mn: "retryAfterMs (fst (checkRateLimits s now)) =
              Some (if kept = [] then 1000
                    else 60000 - (now - Min (timestamp ` set kept)))"
    if "\<not> maxRequestsPerSecond (config s) \<le> int (length lastSecond)"
       "maxRequestsPerMinute (config s) \<le> int (length kept)"
  proof (cases "sort_key timestamp kept")
    case Nil
    then have "kept = []" by (metis length_sort list.size(3) length_0_conv)
    then show ?thesis using that ls
      by (simp add: checkRateLimits_def Let_def kept_def [symmetric])
  next
    case (Cons y ys)
    then have ne: "kept \<noteq> []" by auto
    show ?thesis using that ls Cons ne sort_key_hd_Min [OF Cons]
      by (simp add: checkRateLimits_def Let_def kept_def [symmetric])
  qed
  have hist: "mset (requestHistory (snd (checkRateLimits s now))) = mset kept"
    by (simp add: checkRateLimits_def Let_def kept_def [symmetric])
  have old: "\<forall>r \<in> set (requestHistory (snd (checkRateLimits s now))). now - timestamp r < 60000"
  proof -
    have "set (requestHistory (snd (checkRateLimits s now))) = set kept"
      using hist by (metis set_mset_mset)
    then show ?thesis by (simp add: kept_def)
  qed
  have al: "\<not> allowed (fst (checkRateLimits s now)) \<longleftrightarrow>
            maxRequestsPerSecond (config s) \<le> int (length lastSecond)
            \<or> maxRequestsPerMinute (config s) \<le> int (length kept)"
    using ls by (simp add: checkRateLimits_def Let_def kept_def [symmetric])
  have none: "allowed (fst (checkRateLimits s now)) \<longrightarrow>
               retryAfterMs (fst (checkRateLimits s now)) = None"
    using ls by (simp add: checkRateLimits_def Let_def kept_def [symmetric])
  show ?thesis
    unfolding Let_def kept_def [symmetric] lastSecond_def [symmetric]
    using hist old al sec mn none by blast
qed

theorem checkRateLimits_window_witness:
  "retryAfterMs (fst (checkRateLimits
       (exampleLimiter (DEFAULT_CONFIG\<lparr>maxRequestsPerSecond := 2\<rparr>) [100, 69900, 69500])
       70000)) = Some 500
   \<and> map timestamp (requestHistory (snd (checkRateLimits
       (exampleLimiter (DEFAULT_CONFIG\<lparr>maxRequestsPerSecond := 2\<rparr>) [100, 69900, 69500])
       70000))) = [69900, 69500]
   \<and> retryAfterMs (fst (checkRateLimits
       (exampleLimiter (DEFAULT_CONFIG\<lparr>maxRequestsPerMinute := 2\<rparr>) [100, 20000, 69900])
       70000)) = Some 10000
   \<and> allowed (fst (checkRateLimits
       (exampleLimiter (DEFAULT_CONFIG\<lparr>maxRequestsPerMinute := 2\<rparr>) [100, 20000, 69900])
       70000)) = False"
  using
    checkRateLimits_window [where now = 70000 and s =
      "exampleLimiter (DEFAULT_CONFIG\<lparr>maxRequestsPerSecond := 2\<rparr>) [100, 69900, 69500]"]
    checkRateLimits_window [where now = 70000 and s =
      "exampleLimiter (DEFAULT_CONFIG\<lparr>maxRequestsPerMinute := 2\<rparr>) [100, 20000, 69900]"]
  by (simp add: exampleLimiter_def newRateLimiter_def DEFAULT_CONFIG_def Let_def
        checkRateLimits_def)

section \<open>Properties of the circuit breaker\<close>





section \<open>Admission and the rate limits\<close>

text \<open>
  A call that starts its operation has passed \<open>checkRateLimits\<close>: the history of the
  limiter holds fewer than \<open>maxRequestsPerSecond\<close> entries of the last second and fewer
  than \<open>maxRequestsPerMinute\<close> entries of the last 60 seconds.
\<close>

lemma execute_admits_below_recorded_limits:
  assumes "fst (execute s now key requestFn p) = Invoked f q"
  shows "int (length (filter (\<lambda>r. now - timestamp r < 1000) (requestHistory s)))
           < maxRequestsPerSecond (config s)
         \<and> int (length (filter (\<lambda>r. now - timestamp r < 60000) (requestHistory s)))
           < maxRequestsPerMinute (config s)"
proof -
  let ?s1 = "snd (checkCircuitBreaker s now)"
  have h: "requestHistory ?s1 = requestHistory s" "config ?s1 = config s"
    by (simp_all add: checkCircuitBreaker_def)
  have al: "allowed (fst (checkRateLimits ?s1 now))"
    using assms
    by (auto simp: execute_def split: prod.splits bool.splits option.splits if_splits)
  have ls: "filter (\<lambda>r. now - timestamp r < 1000)
              (filter (\<lambda>r. now - timestamp r < 60000) (requestHistory s))
            = filter (\<lambda>r. now - timestamp r < 1000) (requestHistory s)"
    by (simp, rule filter_cong, auto)
  show ?thesis
    using al h ls
    by (auto simp: checkRateLimits_def Let_def split: if_splits)
qed

text \<open>
  History entries are written by \<open>recordSuccess\<close> and \<open>recordError\<close>, that is by the
  callback of a settling request, and are dropped by \<open>checkRateLimits\<close> once they are
  60 s old. Along a trace whose times do not decrease, \<open>traceInv\<close> holds.
\<close>

lemma traceInv_mono: "traceInv w T \<Longrightarrow> T \<le> T' \<Longrightarrow> traceInv w T'"
  unfolding traceInv_def by (auto simp: case_prod_beta)

lemma traceInv_newWorld: "traceInv (newWorld cfg) T"
  by (simp add: traceInv_def newWorld_def newRateLimiter_def)

lemma history_execute_cases:
  "requestHistory (snd (execute s now key f p)) = requestHistory s
   \<or> mset (requestHistory (snd (execute s now key f p)))
       = mset (filter (\<lambda>r. now - timestamp r < 60000) (requestHistory s))"
  by (auto simp: execute_def checkCircuitBreaker_def checkRateLimits_def Let_def
        split: option.splits if_splits)

lemma history_window_execute:
  assumes "now \<le> now'"
  shows "filter_mset (\<lambda>c. now' - c < 60000)
           (mset (map timestamp (requestHistory (snd (execute s now key f p)))))
         = filter_mset (\<lambda>c. now' - c < 60000) (mset (map timestamp (requestHistory s)))"
proof -
  have pruned: "filter_mset (\<lambda>c. now' - c < 60000)
           (image_mset timestamp (filter_mset (\<lambda>r. now - timestamp r < 60000) M))
         = filter_mset (\<lambda>c. now' - c < 60000) (image_mset timestamp M)" for M
    using assms by (induction M) auto
  from history_execute_cases [of s now key f p] show ?thesis
  proof
    assume "requestHistory (snd (execute s now key f p)) = requestHistory s"
    then show ?thesis by simp
  next
    assume m: "mset (requestHistory (snd (execute s now key f p)))
       = mset (filter (\<lambda>r. now - timestamp r < 60000) (requestHistory s))"
    have "mset (map timestamp (requestHistory (snd (execute s now key f p))))
            = image_mset timestamp (mset (requestHistory (snd (execute s now key f p))))"
      by simp
    also have "\<dots> = image_mset timestamp
                      (filter_mset (\<lambda>r. now - timestamp r < 60000) (mset (requestHistory s)))"
      using m by simp
    finally show ?thesis using pruned [of "mset (requestHistory s)"] by simp
  qed
qed

lemma history_onSettled:
  "map timestamp (requestHistory (onSettled s now key ok))
     = map timestamp (requestHistory s) @ [now]"
  by (simp add: onSettled_def recordSuccess_def recordError_def Let_def)

lemma config_execute: "config (snd (execute s now key f p)) = config s"
  by (auto simp: execute_def checkCircuitBreaker_def checkRateLimits_def Let_def
        split: option.splits if_splits)

lemma config_onSettled: "config (onSettled s now key ok) = config s"
  by (simp add: onSettled_def recordSuccess_def recordError_def Let_def)

lemma triple_pred_fst: "(\<lambda>(q, _, _). P q) = (\<lambda>y. P (fst y))"
  by (auto simp: fun_eq_iff)

lemma triple_sel_third: "(\<lambda>(p, k, a). a) = (\<lambda>y. snd (snd y))"
  by (auto simp: fun_eq_iff)

lemma inFlight_remove_settled:
  assumes "distinct (map fst xs)"
    and "find (\<lambda>(q, _, _). q = p) xs = Some (p', key, a)"
  shows "mset (map (\<lambda>(p, k, a). a) xs)
         = mset (map (\<lambda>(p, k, a). a) (filter (\<lambda>(q, _, _). q \<noteq> p) xs)) + {#a#}"
proof -
  have "mset (map (\<lambda>y. snd (snd y)) xs)
         = mset (map (\<lambda>y. snd (snd y)) (filter (\<lambda>y. fst y \<noteq> p) xs)) + {#a#}"
    if "distinct (map fst xs)" "find (\<lambda>y. fst y = p) xs = Some (p', key, a)"
    using that
  proof (induction xs)
    case Nil
    then show ?case by simp
  next
    case (Cons x xs)
    show ?case
    proof (cases "fst x = p")
      case True
      then have eq: "snd (snd x) = a" using Cons.prems(2) by auto
      have "fst x \<notin> fst ` set xs" using Cons.prems(1) by simp
      then have "\<forall>y \<in> set xs. fst y \<noteq> p" using True by (metis imageI)
      then have f: "filter (\<lambda>y. fst y \<noteq> p) xs = xs" by (intro filter_True) auto
      show ?thesis using True eq by (simp add: f del: mset_filter mset_map)
    next
      case False
      then have "find (\<lambda>y. fst y = p) xs = Some (p', key, a)"
        using Cons.prems(2) by simp
      moreover have "distinct (map fst xs)" using Cons.prems(1) by simp
      ultimately show ?thesis using Cons.IH False by simp
    qed
  qed
  then show ?thesis
    using assms
    by (simp only: triple_pred_fst [of "\<lambda>q. q = p"] triple_pred_fst [of "\<lambda>q. q \<noteq> p"]
          triple_sel_third)
qed

lemma find_in_flight:
  "find (\<lambda>(q, _, _). q = p) xs = Some (p', key, a) \<Longrightarrow> (p', key, a) \<in> set xs"
  by (induction xs) (auto split: if_splits)

lemma traceInv_step:
  assumes inv: "traceInv w T" and le: "T \<le> t"
  shows "traceInv (step w (t, ev)) t"
proof (cases ev)
  case (Call key f)
  let ?r = "execute (limiter w) t key f (nextPromise w)"
  have hist: "\<forall>now\<ge>t. filter_mset (\<lambda>c. now - c < 60000)
                   (mset (map timestamp (requestHistory (snd ?r))))
                = filter_mset (\<lambda>c. now - c < 60000) (mset (map snd (settlements w)))"
    using inv le history_window_execute [of t _ "limiter w" key f "nextPromise w"]
    by (simp add: traceInv_def)
  have base: "traceInv w t" using inv le by (rule traceInv_mono)
  show ?thesis
  proof (cases "\<exists>f' p'. fst ?r = Invoked f' p'")
    case False
    then have "step w (t, ev) = w\<lparr>limiter := snd ?r\<rparr>"
      using Call by (cases ?r; cases "fst ?r") auto
    then show ?thesis using base hist by (simp add: traceInv_def)
  next
    case True
    then obtain f' p' where "fst ?r = Invoked f' p'" by blast
    then have st: "step w (t, ev) =
        w\<lparr>limiter := snd ?r, inFlight := inFlight w @ [(p', key, t)],
          invocations := invocations w @ [(t, key, f')],
          nextPromise := Suc (nextPromise w)\<rparr>"
      and p': "p' = nextPromise w"
      using Call
      by (cases ?r; auto simp: execute_def split: prod.splits option.splits if_splits bool.splits)+
    have fresh: "nextPromise w \<notin> fst ` set (inFlight w)"
      using base by (auto simp: traceInv_def)
    show ?thesis
      unfolding st p' using base hist fresh
      by (auto simp: traceInv_def less_Suc_eq)
  qed
next
  case (Settle p ok)
  show ?thesis
  proof (cases "find (\<lambda>(q, _, _). q = p) (inFlight w)")
    case None
    then have "step w (t, ev) = w" using Settle by simp
    then show ?thesis using inv le by (simp add: traceInv_mono)
  next
    case (Some x)
    obtain p' key a where x: "x = (p', key, a)" by (cases x)
    have st: "step w (t, ev) =
        w\<lparr>limiter := onSettled (limiter w) t key ok,
          inFlight := filter (\<lambda>(q, _, _). q \<noteq> p) (inFlight w),
          settlements := settlements w @ [(a, t)]\<rparr>"
      using Settle Some x by simp
    have base: "traceInv w t" using inv le by (rule traceInv_mono)
    have mem: "(p', key, a) \<in> set (inFlight w)"
      using Some x find_in_flight by fastforce
    then have a: "a \<le> t" using base by (auto simp: traceInv_def)
    have dist: "distinct (map fst (inFlight w))" using base by (simp add: traceInv_def)
    have J: "mset (map (\<lambda>(p, k, a). a) (inFlight w))
         = mset (map (\<lambda>(p, k, a). a) (filter (\<lambda>(q, _, _). q \<noteq> p) (inFlight w))) + {#a#}"
      using inFlight_remove_settled [OF dist] Some x by simp
    have d2: "distinct (map fst (filter (\<lambda>(q, _, _). q \<noteq> p) (inFlight w)))"
      using dist by (simp add: distinct_map_filter)
    show ?thesis
      unfolding st using base a J d2
      by (auto simp: traceInv_def history_onSettled)
  qed
qed

lemma run_snoc: "run cfg (evs @ [e]) = step (run cfg evs) e"
  by (simp add: run_def)

lemma traceInv_run:
  assumes "sorted (map fst evs)" and "\<forall>e \<in> set evs. fst e \<le> t"
  shows "traceInv (run cfg evs) t"
  using assms
proof (induction evs arbitrary: t rule: rev_induct)
  case Nil
  then show ?case by (simp add: run_def traceInv_newWorld)
next
  case (snoc e evs)
  obtain te ev where e: "e = (te, ev)" by (cases e)
  have "sorted (map fst evs)" "\<forall>x \<in> set evs. fst x \<le> te"
    using snoc.prems(1) e by (auto simp: sorted_append)
  then have "traceInv (run cfg evs) te" by (rule snoc.IH)
  then have "traceInv (step (run cfg evs) (te, ev)) te"
    by (rule traceInv_step) simp
  moreover have "te \<le> t" using snoc.prems(2) e by simp
  ultimately show ?case unfolding run_snoc e by (rule traceInv_mono)
qed

lemma config_step: "config (limiter (step w e)) = config (limiter w)"
proof -
  obtain t ev where e: "e = (t, ev)" by (cases e)
  show ?thesis
  proof (cases ev)
    case (Call key f)
    have "limiter (step w (t, Call key f)) = snd (execute (limiter w) t key f (nextPromise w))"
      by (cases "execute (limiter w) t key f (nextPromise w)";
          cases "fst (execute (limiter w) t key f (nextPromise w))") auto
    then show ?thesis using e Call by (simp add: config_execute)
  next
    case (Settle p ok)
    then show ?thesis using e
      by (auto simp: config_onSettled split: option.splits)
  qed
qed

lemma config_run: "config (limiter (run cfg evs)) = cfg"
  by (induction evs rule: rev_induct)
    (simp_all add: run_snoc config_step, simp add: run_def newWorld_def newRateLimiter_def)

lemma length_filter_as_mset:
  "length (filter (\<lambda>r. P (g r)) xs) = size (filter_mset P (mset (map g xs)))"
  by (induction xs) auto

lemma history_window_settled:
  assumes inv: "traceInv w t" and L: "L \<le> 60000"
  shows "length (filter (\<lambda>r. t - timestamp r < L) (requestHistory (limiter w)))
         = settledWithin w t L"
proof -
  have narrow: "filter_mset (\<lambda>c. t - c < L) M
                  = filter_mset (\<lambda>c. t - c < L) (filter_mset (\<lambda>c. t - c < 60000) M)"
    for M :: "int multiset"
    using L by (induction M) auto
  have H: "filter_mset (\<lambda>c. t - c < 60000) (mset (map timestamp (requestHistory (limiter w))))
           = filter_mset (\<lambda>c. t - c < 60000) (mset (map snd (settlements w)))"
    using inv by (simp add: traceInv_def)
  have "length (filter (\<lambda>r. t - timestamp r < L) (requestHistory (limiter w)))
          = size (filter_mset (\<lambda>c. t - c < L)
                    (mset (map timestamp (requestHistory (limiter w)))))"
    by (rule length_filter_as_mset)
  also have "\<dots> = size (filter_mset (\<lambda>c. t - c < L) (mset (map snd (settlements w))))"
    using narrow [of "mset (map timestamp (requestHistory (limiter w)))"]
      narrow [of "mset (map snd (settlements w))"] H by simp
  also have "\<dots> = settledWithin w t L"
    unfolding settledWithin_def
    using length_filter_as_mset [of "\<lambda>c. t - c < L" snd "settlements w"]
    by (simp add: case_prod_unfold)
  finally show ?thesis .
qed

lemma step_admitted:
  assumes "invocations (step w (t, Call key f)) \<noteq> invocations w"
  shows "\<exists>f' q. fst (execute (limiter w) t key f (nextPromise w)) = Invoked f' q"
    and "invocations (step w (t, Call key f)) = invocations w @ [(t, key, f)]"
  using assms
  by (cases "execute (limiter w) t key f (nextPromise w)";
      cases "fst (execute (limiter w) t key f (nextPromise w))";
      auto simp: execute_def split: prod.splits option.splits if_splits bool.splits)+

lemma admitted_window_bound:
  assumes inv: "traceInv w t"
  shows "length (filter (\<lambda>(a, _, _). t - a < L \<and> a \<le> t) (invocations w))
         \<le> length (inFlight w) + settledWithin w t L"
proof -
  let ?P = "\<lambda>a. t - a < L \<and> a \<le> t"
  have J: "mset (map fst (invocations w))
         = mset (map (\<lambda>(p, k, a). a) (inFlight w)) + mset (map fst (settlements w))"
    using inv by (simp add: traceInv_def)
  have order: "\<forall>(a, c) \<in> set (settlements w). a \<le> c \<and> c \<le> t"
    using inv by (simp add: traceInv_def)
  have "length (filter (\<lambda>(a, _, _). t - a < L \<and> a \<le> t) (invocations w))
          = size (filter_mset ?P (mset (map fst (invocations w))))"
    using length_filter_as_mset [of ?P fst "invocations w"] by (simp add: case_prod_unfold)
  also have "\<dots> = size (filter_mset ?P (mset (map (\<lambda>(p, k, a). a) (inFlight w))))
                  + size (filter_mset ?P (mset (map fst (settlements w))))"
    unfolding J by simp
  also have "\<dots> \<le> length (inFlight w) + settledWithin w t L"
  proof -
    have "size (filter_mset ?P (mset (map (\<lambda>(p, k, a). a) (inFlight w))))
            \<le> size (mset (map (\<lambda>(p, k, a). a) (inFlight w)))"
      by (rule size_filter_mset_lesseq)
    then have a: "size (filter_mset ?P (mset (map (\<lambda>(p, k, a). a) (inFlight w))))
            \<le> length (inFlight w)" by simp
    have "size (filter_mset ?P (mset (map fst xs))) \<le> length (filter (\<lambda>(a, c). t - c < L) xs)"
      if "\<forall>(a, c) \<in> set xs. a \<le> c \<and> c \<le> t" for xs :: "(int \<times> int) list"
      using that by (induction xs) auto
    then have "size (filter_mset ?P (mset (map fst (settlements w)))) \<le> settledWithin w t L"
      unfolding settledWithin_def using order by blast
    then show ?thesis using a by linarith
  qed
  finally show ?thesis .
qed

text \<open>
  C2, as the code has it. Take any trace whose times do not decrease and whose last
  event is a call that starts its operation, at time \<open>t\<close>. Then fewer than
  \<open>maxRequestsPerSecond\<close> started requests have settled within the second before \<open>t\<close>
  and fewer than \<open>maxRequestsPerMinute\<close> within the 60 seconds before \<open>t\<close>. Hence the
  operations invoked within the trailing second (60 seconds) that ends at \<open>t\<close>, the new
  one included, exceed the maximum by at most the number of requests that are in flight:
  requests that were started and have not settled are not counted by the limiter.
\<close>

theorem admissions_bounded_up_to_in_flight:
  assumes srt: "sorted (map fst (evs @ [(t, Call key f)]))"
    and adm: "invocations (run cfg (evs @ [(t, Call key f)])) \<noteq> invocations (run cfg evs)"
  shows "int (settledWithin (run cfg evs) t 1000) < maxRequestsPerSecond cfg
         \<and> int (settledWithin (run cfg evs) t 60000) < maxRequestsPerMinute cfg
         \<and> int (admittedWithin (run cfg (evs @ [(t, Call key f)])) t 1000)
             \<le> maxRequestsPerSecond cfg + int (length (inFlight (run cfg evs)))
         \<and> int (admittedWithin (run cfg (evs @ [(t, Call key f)])) t 60000)
             \<le> maxRequestsPerMinute cfg + int (length (inFlight (run cfg evs)))"
proof -
  let ?w = "run cfg evs"
  have "sorted (map fst evs)" "\<forall>e \<in> set evs. fst e \<le> t"
    using srt by (auto simp: sorted_append)
  then have inv: "traceInv ?w t" by (rule traceInv_run)
  have adm': "invocations (step ?w (t, Call key f)) \<noteq> invocations ?w"
    using adm by (simp add: run_snoc)
  from step_admitted(1) [OF adm'] obtain f' q where
    ex: "fst (execute (limiter ?w) t key f (nextPromise ?w)) = Invoked f' q" by blast
  have lim: "int (length (filter (\<lambda>r. t - timestamp r < 1000) (requestHistory (limiter ?w))))
               < maxRequestsPerSecond cfg"
    "int (length (filter (\<lambda>r. t - timestamp r < 60000) (requestHistory (limiter ?w))))
               < maxRequestsPerMinute cfg"
    using execute_admits_below_recorded_limits [OF ex] by (simp_all add: config_run)
  have s1: "int (settledWithin ?w t 1000) < maxRequestsPerSecond cfg"
    using lim(1) history_window_settled [OF inv, of 1000] by simp
  have s60: "int (settledWithin ?w t 60000) < maxRequestsPerMinute cfg"
    using lim(2) history_window_settled [OF inv, of 60000] by simp
  have count: "admittedWithin (run cfg (evs @ [(t, Call key f)])) t L
               = Suc (length (filter (\<lambda>(a, _, _). t - a < L \<and> a \<le> t) (invocations ?w)))"
    if "0 < L" for L
    using that step_admitted(2) [OF adm'] by (simp add: admittedWithin_def run_snoc)
  have a1: "int (admittedWithin (run cfg (evs @ [(t, Call key f)])) t 1000)
             \<le> maxRequestsPerSecond cfg + int (length (inFlight ?w))"
    using count [of 1000] admitted_window_bound [OF inv, of 1000] s1 by simp
  have a60: "int (admittedWithin (run cfg (evs @ [(t, Call key f)])) t 60000)
             \<le> maxRequestsPerMinute cfg + int (length (inFlight ?w))"
    using count [of 60000] admitted_window_bound [OF inv, of 60000] s60 by simp
  show ?thesis using s1 s60 a1 a60 by simp
qed

lemma example_trace_sorted:
  "sorted (map fst ([(0::int, Call ''getTrack:a'' ''fnA''), (5, Settle 0 True),
                     (10, Call ''getTrack:b'' ''fnB'')] @ [(20, Call ''getTrack:c'' ''fnC'')]))"
  by simp

lemma example_trace_admitted:
  "invocations (run (DEFAULT_CONFIG\<lparr>maxRequestsPerSecond := 2\<rparr>)
      [(0, Call ''getTrack:a'' ''fnA''), (5, Settle 0 True),
       (10, Call ''getTrack:b'' ''fnB''), (20, Call ''getTrack:c'' ''fnC'')])
   = [(0, ''getTrack:a'', ''fnA''), (10, ''getTrack:b'', ''fnB''), (20, ''getTrack:c'', ''fnC'')]"
  "invocations (run (DEFAULT_CONFIG\<lparr>maxRequestsPerSecond := 2\<rparr>)
      [(0, Call ''getTrack:a'' ''fnA''), (5, Settle 0 True),
       (10, Call ''getTrack:b'' ''fnB'')])
   = [(0, ''getTrack:a'', ''fnA''), (10, ''getTrack:b'', ''fnB'')]"
  "settlements (run (DEFAULT_CONFIG\<lparr>maxRequestsPerSecond := 2\<rparr>)
      [(0, Call ''getTrack:a'' ''fnA''), (5, Settle 0 True),
       (10, Call ''getTrack:b'' ''fnB'')]) = [(0, 5)]"
  "inFlight (run (DEFAULT_CONFIG\<lparr>maxRequestsPerSecond := 2\<rparr>)
      [(0, Call ''getTrack:a'' ''fnA''), (5, Settle 0 True),
       (10, Call ''getTrack:b'' ''fnB'')]) = [(1, ''getTrack:b'', 10)]"
  by (simp_all add: run_def newWorld_def newRateLimiter_def DEFAULT_CONFIG_def execute_def
        checkCircuitBreaker_def checkRateLimits_def onSettled_def recordSuccess_def Let_def)

theorem admissions_bounded_up_to_in_flight_witness:
  "settledWithin (run (DEFAULT_CONFIG\<lparr>maxRequestsPerSecond := 2\<rparr>)
      [(0, Call ''getTrack:a'' ''fnA''), (5, Settle 0 True),
       (10, Call ''getTrack:b'' ''fnB'')]) 20 1000 = 1
   \<and> length (inFlight (run (DEFAULT_CONFIG\<lparr>maxRequestsPerSecond := 2\<rparr>)
      [(0, Call ''getTrack:a'' ''fnA''), (5, Settle 0 True),
       (10, Call ''getTrack:b'' ''fnB'')])) = 1
   \<and> admittedWithin (run (DEFAULT_CONFIG\<lparr>maxRequestsPerSecond := 2\<rparr>)
      [(0, Call ''getTrack:a'' ''fnA''), (5, Settle 0 True),
       (10, Call ''getTrack:b'' ''fnB''), (20, Call ''getTrack:c'' ''fnC'')]) 20 1000 = 3
   \<and> maxRequestsPerSecond (DEFAULT_CONFIG\<lparr>maxRequestsPerSecond := 2\<rparr>) = 2"
proof -
  have adm: "invocations (run (DEFAULT_CONFIG\<lparr>maxRequestsPerSecond := 2\<rparr>)
      ([(0, Call ''getTrack:a'' ''fnA''), (5, Settle 0 True),
        (10, Call ''getTrack:b'' ''fnB'')] @ [(20, Call ''getTrack:c'' ''fnC'')]))
    \<noteq> invocations (run (DEFAULT_CONFIG\<lparr>maxRequestsPerSecond := 2\<rparr>)
      [(0, Call ''getTrack:a'' ''fnA''), (5, Settle 0 True),
       (10, Call ''getTrack:b'' ''fnB'')])"
    by (simp add: example_trace_admitted)
  show ?thesis
    using admissions_bounded_up_to_in_flight [OF example_trace_sorted adm]
    by (simp add: settledWithin_def admittedWithin_def example_trace_admitted)
qed

text \<open>
  C2, as the specification states it, fails: with \<open>maxRequestsPerSecond = 1\<close>, two calls
  under distinct keys made at the same instant on a fresh limiter both start their
  operation, since neither has settled when the other is checked.
\<close>

theorem admissions_exceed_maxRequestsPerSecond:
  "\<not> withinRateLimits
       (run (DEFAULT_CONFIG\<lparr>maxRequestsPerSecond := 1\<rparr>)
          [(0, Call ''getTrack:a'' ''fnA''), (0, Call ''getTrack:b'' ''fnB'')]) 0
   \<and> invocations
       (run (DEFAULT_CONFIG\<lparr>maxRequestsPerSecond := 1\<rparr>)
          [(0, Call ''getTrack:a'' ''fnA''), (0, Call ''getTrack:b'' ''fnB'')])
     = [(0, ''getTrack:a'', ''fnA''), (0, ''getTrack:b'', ''fnB'')]"
  by (simp add: withinRateLimits_def admittedWithin_def run_def newWorld_def
        newRateLimiter_def DEFAULT_CONFIG_def execute_def checkCircuitBreaker_def
        checkRateLimits_def Let_def)

section \<open>Deduplication of in-flight requests\<close>

text \<open>
  A call under a key whose pending entry was registered less than \<open>requestTimeoutMs\<close>
  ago, with the circuit closed, returns the promise of that entry, leaves the limiter
  as it is and does not call its operation.
\<close>

lemma execute_attaches_to_fresh_pending:
  assumes "\<not> circuitOpen s"
    and "pendingRequests s key = Some pending"
    and "now - pending_timestamp pending < requestTimeoutMs (config s)"
  shows "execute s now key requestFn p = (ReturnPending (promise pending), s)"
  using assms by (simp add: execute_def checkCircuitBreaker_def)

lemma execute_attaches_to_fresh_pending_example:
  "fst (execute (snd (execute (newRateLimiter DEFAULT_CONFIG) 0 ''getTrack:a'' ''fn1'' (0::nat)))
          9999 ''getTrack:a'' ''fn2'' 1) = ReturnPending 0"
  by (simp add: newRateLimiter_def DEFAULT_CONFIG_def execute_def checkCircuitBreaker_def
        checkRateLimits_def Let_def)

text \<open>
  C1 fails on the code when a pending entry is replaced. The callback of a settling
  promise deletes the entry under its key whichever promise the entry holds. In the
  trace below the request A under key \<open>k\<close> is started at time 0. At time 10000 its
  entry is \<open>requestTimeoutMs\<close> old while its timeout has not fired yet, so a second call
  under \<open>k\<close> starts request B and overwrites the entry. Then A is rejected by its
  timeout, and its callback deletes the entry of B. At time 10002 request B is in flight,
  it was started 2 ms ago and the circuit is closed; still a third call under \<open>k\<close>
  invokes its own operation.
\<close>

theorem execute_reinvokes_beside_in_flight_request:
  "inFlight (run DEFAULT_CONFIG
       [(0, Call ''k'' ''fnA''), (10000, Call ''k'' ''fnB''), (10000, Settle 0 False)])
     = [(1, ''k'', 10000)]
   \<and> circuitOpen (limiter (run DEFAULT_CONFIG
       [(0, Call ''k'' ''fnA''), (10000, Call ''k'' ''fnB''), (10000, Settle 0 False)]))
     = False
   \<and> invocations (run DEFAULT_CONFIG
       [(0, Call ''k'' ''fnA''), (10000, Call ''k'' ''fnB''), (10000, Settle 0 False),
        (10002, Call ''k'' ''fnC'')])
     = [(0, ''k'', ''fnA''), (10000, ''k'', ''fnB''), (10002, ''k'', ''fnC'')]
   \<and> inFlight (run DEFAULT_CONFIG
       [(0, Call ''k'' ''fnA''), (10000, Call ''k'' ''fnB''), (10000, Settle 0 False),
        (10002, Call ''k'' ''fnC'')])
     = [(1, ''k'', 10000), (2, ''k'', 10002)]"
  by (simp add: run_def newWorld_def newRateLimiter_def DEFAULT_CONFIG_def execute_def
        checkCircuitBreaker_def checkRateLimits_def onSettled_def recordError_def Let_def)

section \<open>Properties of the migration orchestrator\<close>

subsection \<open>Sets as lists\<close>





lemma setFromArray_Nil: "setFromArray [] = []"
  by (simp add: setFromArray_def)

subsection \<open>The per-record effort\<close>

text \<open>The loop of an effort, unrolled for its three possible attempts.\<close>

lemma retryLoop_third:
  "retryLoop env uri nm nb u (Suc (Suc 0)) le tr =
     (case tryFetch env uri nm nb u (Suc (Suc 0)) of
        (None, u') \<Rightarrow>
          (\<lparr>result_uri = uri, result_success = True, result_updates = u',
            result_retryable = False\<rparr>, tr\<lparr>attempts := attempts tr @ [None]\<rparr>)
      | (Some e, u') \<Rightarrow>
          (\<lparr>result_uri = uri, result_success = False, result_updates = u',
            result_retryable = isRetryableError (Some e)\<rparr>,
           tr\<lparr>attempts := attempts tr @ [Some e]\<rparr>))"
  by (subst retryLoop.simps) (simp add: MAX_RETRIES_PER_TRACK_def Let_def split: prod.splits option.splits)

lemma retryLoop_second:
  "retryLoop env uri nm nb u (Suc 0) le tr =
     (case tryFetch env uri nm nb u (Suc 0) of
        (None, u') \<Rightarrow>
          (\<lparr>result_uri = uri, result_success = True, result_updates = u',
            result_retryable = False\<rparr>, tr\<lparr>attempts := attempts tr @ [None]\<rparr>)
      | (Some e, u') \<Rightarrow>
          if isRetryableError (Some e)
          then retryLoop env uri nm nb u' (Suc (Suc 0)) (Some e)
                 (tr\<lparr>attempts := attempts tr @ [Some e],
                     sleeps := sleeps tr @ [getBackoffDelay (Suc (Suc 0)) 1000]\<rparr>)
          else (\<lparr>result_uri = uri, result_success = False, result_updates = u',
                 result_retryable = False\<rparr>,
                tr\<lparr>attempts := attempts tr @ [Some e]\<rparr>))"
  by (subst retryLoop.simps) (simp add: MAX_RETRIES_PER_TRACK_def Let_def split: prod.splits option.splits)

lemma retryLoop_first:
  "retryLoop env uri nm nb u 0 le tr =
     (case tryFetch env uri nm nb u 0 of
        (None, u') \<Rightarrow>
          (\<lparr>result_uri = uri, result_success = True, result_updates = u',
            result_retryable = False\<rparr>, tr\<lparr>attempts := attempts tr @ [None]\<rparr>)
      | (Some e, u') \<Rightarrow>
          if isRetryableError (Some e)
          then retryLoop env uri nm nb u' (Suc 0) (Some e)
                 (tr\<lparr>attempts := attempts tr @ [Some e],
                     sleeps := sleeps tr @ [getBackoffDelay (Suc 0) 1000]\<rparr>)
          else (\<lparr>result_uri = uri, result_success = False, result_updates = u',
                 result_retryable = False\<rparr>,
                tr\<lparr>attempts := attempts tr @ [Some e]\<rparr>))"
  by (subst retryLoop.simps) (simp add: MAX_RETRIES_PER_TRACK_def Let_def split: prod.splits option.splits)

lemma upt_1_2: "[1..<2] = [Suc 0]" and upt_1_3: "[1..<3] = [Suc 0, 2]"
  by (simp_all add: upt_rec)

lemma isRetryableError_None: "\<not> isRetryableError None"
  by (simp add: isRetryableError_def)

lemma retryLoop_uri:
  "retryLoop env uri nm nb u 0 le tr = (v, tr') \<Longrightarrow> result_uri v = uri"
  by (auto simp: retryLoop_first retryLoop_second retryLoop_third
        split: prod.splits option.splits if_splits)


text \<open>The effort for a key of the dataset never rejects: every error is caught.\<close>

lemma perRecordEffort_fulfilled:
  "map_of (tracks d) uri = Some track \<Longrightarrow> \<exists>v. fst (perRecordEffort env d uri) = Fulfilled v"
  by (simp add: perRecordEffort_def split: prod.splits)

text \<open>
  C7. An effort makes at most 3 attempts. Every attempt but the last threw an error
  that \<open>isRetryableError\<close> accepts, so a retry only follows a retryable error. Before
  retry number \<open>k\<close> (the attempt after \<open>k\<close> failures) the effort sleeps
  \<open>min (1000 * 2 ^ k) 30000\<close> ms, the value of \<^verbatim>\<open>getBackoffDelay(retryCount)\<close> after
  the increment: 2000 ms, then 4000 ms. For a key of the dataset the effort makes at
  least one attempt and is fulfilled with an outcome for that key: a success exactly
  when its last attempt returned, and otherwise a failure that is marked retryable
  exactly when the error of the last attempt is retryable. So an error that is not
  retryable ends the effort at once with a terminal failure. \<open>isRetryableError\<close> is the
  classification by status 429 and by the message containing \<^verbatim>\<open>network\<close>,
  \<^verbatim>\<open>fetch\<close> or \<^verbatim>\<open>timeout\<close>.
\<close>

theorem perRecordEffort_retry_policy:
  assumes "perRecordEffort env d uri = (r, tr)"
  shows "length (attempts tr) \<le> 3
         \<and> (\<forall>a \<in> set (butlast (attempts tr)). isRetryableError a)
         \<and> sleeps tr = map (\<lambda>k. min (1000 * 2 ^ k) 30000) [1..<length (attempts tr)]
         \<and> (\<forall>track. map_of (tracks d) uri = Some track \<longrightarrow>
               attempts tr \<noteq> []
               \<and> (\<exists>v. r = Fulfilled v \<and> result_uri v = uri
                     \<and> (result_success v \<longleftrightarrow> last (attempts tr) = None)
                     \<and> (result_retryable v \<longleftrightarrow> isRetryableError (last (attempts tr)))
                     \<and> (last (attempts tr) \<noteq> None
                          \<and> \<not> isRetryableError (last (attempts tr)) \<longrightarrow>
                          \<not> result_success v \<and> \<not> result_retryable v)))"
proof (cases "map_of (tracks d) uri")
  case None
  then show ?thesis using assms by (auto simp: perRecordEffort_def)
next
  case (Some track)
  obtain v where r: "r = Fulfilled v"
    and v: "retryLoop env uri (needsMetadata track) (needsBpm track) emptyUpdates 0 None
              \<lparr>attempts = [], sleeps = []\<rparr> = (v, tr)"
    using assms Some by (auto simp: perRecordEffort_def split: prod.splits)
  have u: "result_uri v = uri" using v by (rule retryLoop_uri)
  have main: "length (attempts tr) \<le> 3
         \<and> (\<forall>a \<in> set (butlast (attempts tr)). isRetryableError a)
         \<and> sleeps tr = map (\<lambda>k. min (1000 * 2 ^ k) 30000) [1..<length (attempts tr)]
         \<and> attempts tr \<noteq> []
         \<and> (result_success v \<longleftrightarrow> last (attempts tr) = None)
         \<and> (result_retryable v \<longleftrightarrow> isRetryableError (last (attempts tr)))"
    using v
    by (auto simp: retryLoop_first retryLoop_second retryLoop_third getBackoffDelay_def
          upt_1_2 upt_1_3 isRetryableError_None
          split: prod.splits option.splits if_splits)
  show ?thesis using main u r by auto
qed

lemma effort_B:
  "perRecordEffort exampleEnv exampleData ''t:B'' =
     (Fulfilled \<lparr>result_uri = ''t:B'', result_success = True,
                 result_updates = \<lparr>upd_name = Some ''Song B'', upd_artists = Some ''Artist'',
                                    upd_bpm = Some 120\<rparr>,
                 result_retryable = False\<rparr>,
      \<lparr>attempts = [Some rateLimited, Some rateLimited, None], sleeps = [2000, 4000]\<rparr>)"
  by code_simp

lemma effort_C:
  "perRecordEffort exampleEnv exampleData ''t:C'' =
     (Fulfilled \<lparr>result_uri = ''t:C'', result_success = False,
                 result_updates = emptyUpdates, result_retryable = False\<rparr>,
      \<lparr>attempts = [Some badRequest], sleeps = []\<rparr>)"
  by code_simp

lemma effort_tracks:
  "map_of (tracks exampleData) ''t:B'' = Some exampleTrack"
  "map_of (tracks exampleData) ''t:C'' = Some exampleTrack"
  by code_simp+

theorem perRecordEffort_retry_policy_witness:
  "perRecordEffort exampleEnv exampleData ''t:B'' =
     (Fulfilled \<lparr>result_uri = ''t:B'', result_success = True,
                 result_updates = \<lparr>upd_name = Some ''Song B'', upd_artists = Some ''Artist'',
                                    upd_bpm = Some 120\<rparr>,
                 result_retryable = False\<rparr>,
      \<lparr>attempts = [Some rateLimited, Some rateLimited, None], sleeps = [2000, 4000]\<rparr>)
   \<and> isRetryableError (Some rateLimited)
   \<and> perRecordEffort exampleEnv exampleData ''t:C'' =
     (Fulfilled \<lparr>result_uri = ''t:C'', result_success = False,
                 result_updates = emptyUpdates, result_retryable = False\<rparr>,
      \<lparr>attempts = [Some badRequest], sleeps = []\<rparr>)
   \<and> isRetryableError (Some badRequest) = False
   \<and> map_of (tracks exampleData) ''t:C'' = Some exampleTrack"
  using perRecordEffort_retry_policy [OF effort_B] perRecordEffort_retry_policy [OF effort_C]
  by (simp add: effort_B effort_C effort_tracks isRetryableError_def rateLimited_def
        badRequest_def)

subsection \<open>The results of a batch\<close>








subsection \<open>The store, the work logs and the list of the second pass\<close>

lemma tryWrite_progress:
  "stored_migrations (tryWrite (\<lambda>st. st\<lparr>stored_progress := Some p\<rparr>) s) = stored_migrations s"
  "stored_trackInfoCache (tryWrite (\<lambda>st. st\<lparr>stored_progress := Some p\<rparr>) s)
     = stored_trackInfoCache s"
  "stored_progress (tryWrite (\<lambda>st. st\<lparr>stored_progress := Some p\<rparr>) s)
     = (case failingWrites s of True # _ \<Rightarrow> stored_progress s | _ \<Rightarrow> Some p)"
  by (auto simp: tryWrite_def split: list.splits bool.splits)

lemma tryWrite_migrations:
  "stored_progress (tryWrite (\<lambda>st. st\<lparr>stored_migrations := Some m\<rparr>) s) = stored_progress s"
  "stored_trackInfoCache (tryWrite (\<lambda>st. st\<lparr>stored_migrations := Some m\<rparr>) s)
     = stored_trackInfoCache s"
  "stored_migrations (tryWrite (\<lambda>st. st\<lparr>stored_migrations := Some m\<rparr>) s)
     = (case failingWrites s of True # _ \<Rightarrow> stored_migrations s | _ \<Rightarrow> Some m)"
  by (auto simp: tryWrite_def split: list.splits bool.splits)

lemma world_cacheStep:
  "world (cacheStep st uri) = (world st)\<lparr>examined := examined (world st) @ [uri]\<rparr>"
  by (simp add: cacheStep_def Let_def split: option.splits)

lemma world_foldl_cacheStep:
  "world (foldl cacheStep st uris) = (world st)\<lparr>examined := examined (world st) @ uris\<rparr>"
  by (induction uris arbitrary: st) (simp_all add: world_cacheStep)



lemma world_processResult: "world (processResult st r) = world st"
  by (simp add: processResult_def split: Settled.splits)

lemma world_foldl_processResult: "world (foldl processResult st rs) = world st"
  by (induction rs arbitrary: st) (simp_all add: world_processResult)

lemma world_runBatch:
  "world (runBatch env still i st)
     = (world st)\<lparr>fetched := fetched (world st) @ take BATCH_SIZE (drop i still)\<rparr>"
  by (simp add: runBatch_def Let_def world_foldl_processResult)

lemma progress_processResult: "progress (processResult st r) = progress st"
  by (simp add: processResult_def split: Settled.splits)

lemma progress_foldl_processResult: "progress (foldl processResult st rs) = progress st"
  by (induction rs arbitrary: st) (simp_all add: progress_processResult)

lemma progress_runBatch: "progress (runBatch env still i st) = progress st"
  by (simp add: runBatch_def Let_def progress_foldl_processResult)

lemma checkpoint_facts:
  "processedUris (progress (checkpoint st)) = processedSet st"
  "failedUris (progress (checkpoint st)) = Some (failedSet st)"
  "migrationName (progress (checkpoint st)) = migrationName (progress st)"
  "published (world (checkpoint st)) = published (world st) @ [updatedData st]"
  "updatedData (checkpoint st) = updatedData st"
  "processedSet (checkpoint st) = processedSet st"
  "failedSet (checkpoint st) = failedSet st"
  "consecutiveFailures (checkpoint st) = consecutiveFailures st"
  "stored_migrations (store (world (checkpoint st))) = stored_migrations (store (world st))"
  "fetched (world (checkpoint st)) = fetched (world st)"
  "examined (world (checkpoint st)) = examined (world st)"
  "stored_progress (store (world (checkpoint st)))
     = (case failingWrites (store (world st)) of
          True # _ \<Rightarrow> stored_progress (store (world st))
        | _ \<Rightarrow> Some ((progress st)\<lparr>processedUris := processedSet st,
                                     failedUris := Some (failedSet st)\<rparr>))"
  "progress (checkpoint st)
     = (progress st)\<lparr>processedUris := processedSet st, failedUris := Some (failedSet st)\<rparr>"
  by (simp_all add: checkpoint_def Let_def setTagData_def saveMigrationProgress_def
        tryWrite_progress)


subsection \<open>The first pass and the keys of a run\<close>













lemma addTrackMetadataMigration_passes:
  "addTrackMetadataMigration env d w =
     (if tracksNeedingWork d = [] then (Inr d, w)
      else case networkPass env (length (tracksNeedingWork d))
                  (stillNeedWork (firstPass env d w)) 0 (firstPass env d w) of
             (Some e, st) \<Rightarrow> (Inl e, world st)
           | (None, st) \<Rightarrow>
               (Inr (updatedData st),
                saveMigrationProgress None (setTagData (updatedData st) (world st))))"
  by (simp add: addTrackMetadataMigration_def firstPass_def Let_def split: prod.splits)




text \<open>Evaluation of a run whose first pass resolves nothing and whose list is one batch.\<close>

lemma firstPass_nothing_cached:
  assumes "tracksNeedingWork d = work"
    and "resumeProgress env (getMigrationProgress (store w)) (length work)
           = (processed, failed, pr)"
    and "remainingTracks work processed failed = rem"
    and "foldl cacheStep
           \<lparr>updatedData = d, processedSet = processed, failedSet = failed,
            stillNeedWork = [], consecutiveFailures = 0, batchFailures = 0,
            progress = pr, world = w\<rparr> rem = c"
    and "length (stillNeedWork c) = length rem"
  shows "firstPass env d w = c"
  using assms by (simp add: firstPass_def Let_def)



text \<open>The driver enters the backfill only while its flag is not set.\<close>

lemma cleanupStep_facts:
  assumes "cleanupStep ms d w = (ms1, hc1, d1, w1)"
  shows "addTrackMetadata (migrations ms1) = addTrackMetadata (migrations ms)"
    and "removeTrackInfoCache (migrations ms1) = removeTrackInfoCache (migrations ms)"
    and "version ms1 = version ms"
    and "flagSet (cleanupEmptyTracks (migrations ms1))"
  using assms
  by (auto simp: cleanupStep_def flagSet_def split: if_splits prod.splits)






subsection \<open>The bookkeeping of a batch\<close>


















subsection \<open>Resuming from the stored progress\<close>








subsection \<open>The pause after repeated failures\<close>

lemma networkPass_stored_migrations:
  "stored_migrations (store (world (snd (networkPass env totalWork still i st))))
     = stored_migrations (store (world st))"
proof (induction env totalWork still i st rule: networkPass.induct)
  case (1 env totalWork still i st)
  show ?case
  proof (cases "i < length still")
    case False
    then show ?thesis by (simp add: networkPass.simps)
  next
    case True
    show ?thesis
    proof (cases "MAX_CONSECUTIVE_FAILURES \<le> consecutiveFailures (runBatch env still i st)")
      case True
      then show ?thesis using \<open>i < length still\<close>
        by (simp add: networkPass.simps [of env totalWork still i st] Let_def
              checkpoint_facts world_runBatch)
    next
      case False
      then show ?thesis using \<open>i < length still\<close> "1.IH"
        by (simp add: networkPass.simps [of env totalWork still i st] Let_def
              checkpoint_facts world_runBatch reportProgress_def)
    qed
  qed
qed

lemma stored_migrations_of_saves:
  "stored_migrations (store (setTagData d w)) = stored_migrations (store w)"
  "stored_migrations (store (saveMigrationProgress pr w)) = stored_migrations (store w)"
  by (simp_all add: setTagData_def saveMigrationProgress_def tryWrite_progress
        split: option.splits)

lemma firstPass_stored_migrations:
  "stored_migrations (store (world (firstPass env d w))) = stored_migrations (store w)"
  by (simp add: firstPass_def Let_def world_foldl_cacheStep stored_migrations_of_saves
        split: prod.splits)

lemma addTrackMetadataMigration_stored_migrations:
  "stored_migrations (store (snd (addTrackMetadataMigration env d w)))
     = stored_migrations (store w)"
proof -
  let ?np = "networkPass env (length (tracksNeedingWork d))
               (stillNeedWork (firstPass env d w)) 0 (firstPass env d w)"
  have "stored_migrations (store (world (snd ?np))) = stored_migrations (store w)"
    by (simp add: networkPass_stored_migrations firstPass_stored_migrations)
  then show ?thesis
    by (cases ?np)
      (auto simp: addTrackMetadataMigration_passes stored_migrations_of_saves
         split: option.splits)
qed

lemma isPauseError_pausedError: "isPauseError pausedError"
  by (simp add: isPauseError_def pausedError_def)

lemma removeTrackInfo_stored_migrations:
  "stored_migrations (store (removeTrackInfo uri w)) = stored_migrations (store w)"
  by (simp add: removeTrackInfo_def)

lemma cleanup_fold_stored_migrations:
  "stored_migrations (store (foldl (\<lambda>w' (trackUri, trackData).
        if isTrackEmpty trackData then removeTrackInfo trackUri w' else w') w xs))
     = stored_migrations (store w)"
  by (induction xs arbitrary: w) (auto simp: removeTrackInfo_stored_migrations)

lemma cleanupStep_stored_migrations:
  assumes "cleanupStep ms d w = (ms1, hc1, d1, w1)"
  shows "stored_migrations (store w1) = stored_migrations (store w)"
  using assms
  by (auto simp: cleanupStep_def cleanupEmptyTracksMigration_def setTagData_def
        cleanup_fold_stored_migrations split: if_splits)

text \<open>
  The end of the driver sets no flag of the backfill: whether the write of the state is
  accepted or not, the stored flag is the one of the state it was given, when the store
  agreed with that state before.
\<close>

lemma finishMigrations_facts:
  assumes "finishMigrations cur ms hc w = (hc', w')"
    and "addTrackMetadata (migrations (getMigrationState (store w)))
           = addTrackMetadata (migrations ms)"
  shows "stored_progress (store w') = stored_progress (store w)"
    and "addTrackMetadata (migrations (getMigrationState (store w')))
           = addTrackMetadata (migrations ms)"
    and "published w' = published w"
    and "\<not> flagSet (removeTrackInfoCache (migrations ms)) \<Longrightarrow>
           hc' \<and> stored_trackInfoCache (store w') = None"
  using assms
  by (auto simp: finishMigrations_def saveMigrationState_def getMigrationState_def
        tryWrite_migrations split: if_splits option.splits list.splits bool.splits)

lemma runMigrations_after_pause:
  assumes "tracks d \<noteq> []"
    and cs: "cleanupStep (getMigrationState (store w)) d w = (ms1, hc1, d1, w1)"
    and pending: "\<not> flagSet (addTrackMetadata (migrations ms1))"
    and bf: "addTrackMetadataMigration env d1 w1 = (Inl e, w2)"
    and pe: "isPauseError e"
  shows "\<exists>hc w3. runMigrations env cur d w = (Inr hc, w3)
           \<and> finishMigrations cur ms1 hc1 w2 = (hc, w3)
           \<and> \<not> flagSet (addTrackMetadata (migrations (getMigrationState (store w3))))
           \<and> needsMigrations cur (store w3)
           \<and> stored_progress (store w3) = stored_progress (store w2)
           \<and> published w3 = published w2
           \<and> (\<not> flagSet (removeTrackInfoCache (migrations ms1)) \<longrightarrow>
                hc \<and> stored_trackInfoCache (store w3) = None)"
proof -
  obtain hc w3 where fin: "finishMigrations cur ms1 hc1 w2 = (hc, w3)"
    by (cases "finishMigrations cur ms1 hc1 w2")
  have run: "runMigrations env cur d w = (Inr hc, w3)"
    using assms fin by (simp add: runMigrations_def runMigrationsWith_def)
  have sm: "stored_migrations (store w2) = stored_migrations (store w)"
    using addTrackMetadataMigration_stored_migrations [of env d1 w1] bf
      cleanupStep_stored_migrations [OF cs] by simp
  have pre: "addTrackMetadata (migrations (getMigrationState (store w2)))
               = addTrackMetadata (migrations ms1)"
    using cleanupStep_facts(1) [OF cs] sm by (simp add: getMigrationState_def)
  note ff = finishMigrations_facts [OF fin pre]
  have "\<not> flagSet (addTrackMetadata (migrations (getMigrationState (store w3))))"
    using ff(2) pending by simp
  then show ?thesis
    using run fin ff(1,3,4) by (auto simp: needsMigrations_def Let_def)
qed

text \<open>
  C5. When the consecutive-failure count is at least \<open>MAX_CONSECUTIVE_FAILURES\<close> after
  a batch, the pass stops there and throws the pause error. Before it throws, it puts the
  current processed and failed sets into the progress record, attempts to write the
  record to the store, and publishes the working dataset. The record is in the store when
  the store accepts the write; when the write fails, the failure is swallowed, the stored
  progress stays what it was, and the pause error is thrown all the same. The error of
  the second pass is the error of the migration. The driver catches an error whose message
  contains \<^verbatim>\<open>Migration paused\<close>: it goes on with the end of the run in the state
  in which the flag of the backfill is not set, so the third migration runs, the stored
  flag of the backfill stays unset, \<^verbatim>\<open>needsMigrations\<close> stays true, and the stored
  progress and the published datasets are those the migration left. Any other error is
  thrown on to the caller.
\<close>

theorem pause_after_consecutive_failures:
  fixes st st1 :: PassState and env :: FetchEnv and still :: "string list" and i :: nat
  defines "st1 \<equiv> runBatch env still i st"
  shows
  "(i < length still \<and> MAX_CONSECUTIVE_FAILURES \<le> consecutiveFailures st1 \<longrightarrow>
      networkPass env totalWork still i st = (Some pausedError, checkpoint st1)
      \<and> isPauseError pausedError
      \<and> progress (checkpoint st1)
          = (progress st)\<lparr>processedUris := processedSet st1,
                          failedUris := Some (failedSet st1)\<rparr>
      \<and> published (world (checkpoint st1)) = published (world st) @ [updatedData st1]
      \<and> stored_progress (store (world (checkpoint st1)))
          = (case failingWrites (store (world st)) of
               True # rest \<Rightarrow> stored_progress (store (world st))
             | _ \<Rightarrow> Some (progress (checkpoint st1))))
   \<and> (tracksNeedingWork d1 \<noteq> []
        \<and> networkPass env (length (tracksNeedingWork d1))
             (stillNeedWork (firstPass env d1 w1)) 0 (firstPass env d1 w1) = (Some e, st2) \<longrightarrow>
        addTrackMetadataMigration env d1 w1 = (Inl e, world st2))
   \<and> (tracks d \<noteq> []
        \<and> cleanupStep (getMigrationState (store w)) d w = (ms1, hc1, d1, w1)
        \<and> \<not> flagSet (addTrackMetadata (migrations ms1))
        \<and> addTrackMetadataMigration env d1 w1 = (Inl e, w2) \<and> isPauseError e \<longrightarrow>
        (\<exists>hc w3. runMigrations env cur d w = (Inr hc, w3)
           \<and> finishMigrations cur ms1 hc1 w2 = (hc, w3)
           \<and> \<not> flagSet (addTrackMetadata (migrations (getMigrationState (store w3))))
           \<and> needsMigrations cur (store w3)
           \<and> stored_progress (store w3) = stored_progress (store w2)
           \<and> published w3 = published w2
           \<and> (\<not> flagSet (removeTrackInfoCache (migrations ms1)) \<longrightarrow>
                hc \<and> stored_trackInfoCache (store w3) = None)))
   \<and> (tracks d \<noteq> []
        \<and> cleanupStep (getMigrationState (store w)) d w = (ms1, hc1, d1, w1)
        \<and> \<not> flagSet (addTrackMetadata (migrations ms1))
        \<and> backfill d1 w1 = (Inl e, w2) \<and> \<not> isPauseError e \<longrightarrow>
        runMigrationsWith backfill cur d w = (Inl e, w2))"
proof (intro conjI impI)
  assume a: "i < length still \<and> MAX_CONSECUTIVE_FAILURES \<le> consecutiveFailures st1"
  then show "networkPass env totalWork still i st = (Some pausedError, checkpoint st1)"
    by (simp add: networkPass.simps [of env totalWork still i st] Let_def st1_def)
  show "isPauseError pausedError" by (rule isPauseError_pausedError)
  show "progress (checkpoint st1)
          = (progress st)\<lparr>processedUris := processedSet st1,
                          failedUris := Some (failedSet st1)\<rparr>"
    by (simp add: checkpoint_facts st1_def progress_runBatch)
  show "published (world (checkpoint st1)) = published (world st) @ [updatedData st1]"
    by (simp add: checkpoint_facts st1_def world_runBatch)
  show "stored_progress (store (world (checkpoint st1)))
          = (case failingWrites (store (world st)) of
               True # rest \<Rightarrow> stored_progress (store (world st))
             | _ \<Rightarrow> Some (progress (checkpoint st1)))"
    by (simp add: checkpoint_facts st1_def world_runBatch progress_runBatch
          split: list.splits bool.splits)
next
  assume "tracksNeedingWork d1 \<noteq> []
        \<and> networkPass env (length (tracksNeedingWork d1))
             (stillNeedWork (firstPass env d1 w1)) 0 (firstPass env d1 w1) = (Some e, st2)"
  then show "addTrackMetadataMigration env d1 w1 = (Inl e, world st2)"
    by (simp add: addTrackMetadataMigration_passes)
next
  assume c: "tracks d \<noteq> []
        \<and> cleanupStep (getMigrationState (store w)) d w = (ms1, hc1, d1, w1)
        \<and> \<not> flagSet (addTrackMetadata (migrations ms1))
        \<and> addTrackMetadataMigration env d1 w1 = (Inl e, w2) \<and> isPauseError e"
  then show "\<exists>hc w3. runMigrations env cur d w = (Inr hc, w3)
           \<and> finishMigrations cur ms1 hc1 w2 = (hc, w3)
           \<and> \<not> flagSet (addTrackMetadata (migrations (getMigrationState (store w3))))
           \<and> needsMigrations cur (store w3)
           \<and> stored_progress (store w3) = stored_progress (store w2)
           \<and> published w3 = published w2
           \<and> (\<not> flagSet (removeTrackInfoCache (migrations ms1)) \<longrightarrow>
                hc \<and> stored_trackInfoCache (store w3) = None)"
    using runMigrations_after_pause [of d w ms1 hc1 d1 w1 env e w2 cur] by simp
next
  assume "tracks d \<noteq> []
        \<and> cleanupStep (getMigrationState (store w)) d w = (ms1, hc1, d1, w1)
        \<and> \<not> flagSet (addTrackMetadata (migrations ms1))
        \<and> backfill d1 w1 = (Inl e, w2) \<and> \<not> isPauseError e"
  then show "runMigrationsWith backfill cur d w = (Inl e, w2)"
    by (simp add: runMigrationsWith_def)
qed

text \<open>The run over the ten tracks, for any behaviour \<open>fw\<close> of the writes to come.\<close>

lemma ten_cleanup:
  "cleanupStep (getMigrationState (store (tenWorld fw))) tenTracks (tenWorld fw)
     = (\<lparr>version = ''0.0.0'',
         migrations = \<lparr>cleanupEmptyTracks = Some True, addTrackMetadata = None,
                       removeTrackInfoCache = None\<rparr>\<rparr>,
        True, tenTracks, setTagData tenTracks (tenWorld fw))"
  by code_simp

lemma ten_work: "tracksNeedingWork tenTracks = tenKeys"
  by code_simp

lemma ten_resume:
  "resumeProgress failingEnv
     (getMigrationProgress (store (setTagData tenTracks (tenWorld fw)))) (length tenKeys)
   = ([], [], \<lparr>migrationName = ''addTrackMetadata'', processedUris = [],
                 failedUris = Some [], totalTracks = 10, startedAt = 1000\<rparr>)"
  by code_simp

lemma ten_remaining: "remainingTracks tenKeys [] [] = tenKeys"
  by code_simp

lemma ten_cache_pass:
  "foldl cacheStep
     \<lparr>updatedData = tenTracks, processedSet = [], failedSet = [], stillNeedWork = [],
      consecutiveFailures = 0, batchFailures = 0,
      progress = \<lparr>migrationName = ''addTrackMetadata'', processedUris = [],
                  failedUris = Some [], totalTracks = 10, startedAt = 1000\<rparr>,
      world = setTagData tenTracks (tenWorld fw)\<rparr> tenKeys = pass0 fw"
  by code_simp

lemma ten_counts:
  "length tenKeys = 10"
  "tenKeys \<noteq> []"
  "tracks tenTracks \<noteq> []"
  "isPauseError badRequest = False"
  by code_simp+

lemma ten_fields:
  "stillNeedWork (pass0 fw) = tenKeys"
  "consecutiveFailures (pass5 fw) = 5"
  "consecutiveFailures (pass10 fw) = 10"
  "progress (pass5 fw) = \<lparr>migrationName = ''addTrackMetadata'', processedUris = [],
                           failedUris = Some [], totalTracks = 10, startedAt = 1000\<rparr>"
  "processedSet (pass10 fw) = []"
  "failedSet (pass10 fw) = tenKeys"
  "updatedData (pass10 fw) = tenTracks"
  "failingWrites (store (world (pass5 fw))) = fw"
  "stored_progress (store (world (pass5 fw))) = None"
  "published (world (pass5 fw)) = [tenTracks]"
  "failingWrites (store (world (pass10 fw))) = fw"
  "stored_progress (store (world (pass10 fw))) = None"
  "progress (pass10 fw) = \<lparr>migrationName = ''addTrackMetadata'', processedUris = [],
                            failedUris = Some [], totalTracks = 10, startedAt = 1000\<rparr>"
  by (simp_all add: pass10_def pass5_def pass0_def reportProgress_def tenWorld_def
        setTagData_def exampleWorld_def emptyStore_def)

lemma ten_firstPass:
  "firstPass failingEnv tenTracks (setTagData tenTracks (tenWorld fw)) = pass0 fw"
  by (rule firstPass_nothing_cached [OF ten_work ten_resume ten_remaining ten_cache_pass])
    (simp add: ten_fields)

lemma ten_first_batch:
  "reportProgress 10 (runBatch failingEnv tenKeys 0 (pass0 fw)) = pass5 fw"
  by code_simp

lemma ten_second_batch:
  "runBatch failingEnv tenKeys 5 (pass5 fw) = pass10 fw"
  by code_simp

lemma ten_first_step:
  "networkPass failingEnv 10 tenKeys 0 (pass0 fw) = networkPass failingEnv 10 tenKeys 5 (pass5 fw)"
proof -
  have "consecutiveFailures (runBatch failingEnv tenKeys 0 (pass0 fw))
          = consecutiveFailures (pass5 fw)"
    unfolding ten_first_batch [symmetric] by (simp add: reportProgress_def)
  then show ?thesis
    by (subst networkPass.simps)
      (simp add: ten_counts ten_fields ten_first_batch MAX_CONSECUTIVE_FAILURES_def
         BATCH_SIZE_def Let_def)
qed

lemma ten_pause:
  "networkPass failingEnv 10 tenKeys 5 (pass5 fw) = (Some pausedError, checkpoint (pass10 fw))"
  by (subst networkPass.simps)
    (simp add: ten_counts ten_fields ten_second_batch MAX_CONSECUTIVE_FAILURES_def Let_def)

lemma ten_migration:
  "addTrackMetadataMigration failingEnv tenTracks (setTagData tenTracks (tenWorld fw))
     = (Inl pausedError, world (checkpoint (pass10 fw)))"
  by (simp add: addTrackMetadataMigration_passes ten_work ten_counts ten_firstPass ten_fields
        ten_first_step ten_pause)

lemma ten_stored_progress:
  "stored_progress (store (world (checkpoint (pass10 []))))
     = Some \<lparr>migrationName = ''addTrackMetadata'', processedUris = [],
             failedUris = Some tenKeys, totalTracks = 10, startedAt = 1000\<rparr>"
  "stored_progress (store (world (checkpoint (pass10 [True])))) = None"
  by (simp_all add: checkpoint_facts ten_fields)

theorem pause_after_consecutive_failures_witness:
  "networkPass failingEnv 10 tenKeys 5 (pass5 []) = (Some pausedError, checkpoint (pass10 []))
   \<and> published (world (checkpoint (pass10 []))) = [tenTracks, tenTracks]
   \<and> stored_progress (store (world (checkpoint (pass10 []))))
       = Some \<lparr>migrationName = ''addTrackMetadata'', processedUris = [],
               failedUris = Some tenKeys, totalTracks = 10, startedAt = 1000\<rparr>
   \<and> addTrackMetadataMigration failingEnv tenTracks (setTagData tenTracks (tenWorld []))
       = (Inl pausedError, world (checkpoint (pass10 [])))
   \<and> fst (runMigrations failingEnv ''1.0.0'' tenTracks (tenWorld [])) = Inr True
   \<and> needsMigrations ''1.0.0''
        (store (snd (runMigrations failingEnv ''1.0.0'' tenTracks (tenWorld []))))
   \<and> stored_progress (store (snd (runMigrations failingEnv ''1.0.0'' tenTracks (tenWorld []))))
       = stored_progress (store (world (checkpoint (pass10 []))))
   \<and> runMigrationsWith (\<lambda>d w. (Inl badRequest, w)) ''1.0.0'' tenTracks (tenWorld [])
       = (Inl badRequest, setTagData tenTracks (tenWorld []))"
proof -
  have reached: "5 < length tenKeys
      \<and> MAX_CONSECUTIVE_FAILURES \<le> consecutiveFailures (runBatch failingEnv tenKeys 5 (pass5 []))"
    by (simp add: ten_counts ten_second_batch ten_fields MAX_CONSECUTIVE_FAILURES_def)
  note paused = pause_after_consecutive_failures [where i = 5 and still = tenKeys
      and env = failingEnv and st = "pass5 []" and totalWork = 10
      and d = tenTracks and w = "tenWorld []"
      and ?d1.0 = tenTracks and ?w1.0 = "setTagData tenTracks (tenWorld [])"
      and ?st2.0 = "checkpoint (pass10 [])"
      and ?ms1.0 = "\<lparr>version = ''0.0.0'',
         migrations = \<lparr>cleanupEmptyTracks = Some True, addTrackMetadata = None,
                       removeTrackInfoCache = None\<rparr>\<rparr>"
      and ?hc1.0 = True and cur = "''1.0.0''"
      and e = pausedError and ?w2.0 = "world (checkpoint (pass10 []))"
      and backfill = "addTrackMetadataMigration failingEnv"]
  note thrown = pause_after_consecutive_failures [where i = 5 and still = tenKeys
      and env = failingEnv and st = "pass5 []" and totalWork = 10
      and d = tenTracks and w = "tenWorld []"
      and ?d1.0 = tenTracks and ?w1.0 = "setTagData tenTracks (tenWorld [])"
      and ?st2.0 = "checkpoint (pass10 [])"
      and ?ms1.0 = "\<lparr>version = ''0.0.0'',
         migrations = \<lparr>cleanupEmptyTracks = Some True, addTrackMetadata = None,
                       removeTrackInfoCache = None\<rparr>\<rparr>"
      and ?hc1.0 = True and cur = "''1.0.0''"
      and e = badRequest and ?w2.0 = "setTagData tenTracks (tenWorld [])"
      and backfill = "\<lambda>d w. (Inl badRequest, w)"]
  have np: "networkPass failingEnv 10 tenKeys 5 (pass5 []) = (Some pausedError, checkpoint (pass10 []))"
    using paused reached by (simp add: ten_second_batch)
  have pb: "published (world (checkpoint (pass10 []))) = [tenTracks, tenTracks]"
    using paused reached by (simp add: ten_second_batch ten_fields)
  have sp: "stored_progress (store (world (checkpoint (pass10 []))))
       = Some \<lparr>migrationName = ''addTrackMetadata'', processedUris = [],
               failedUris = Some tenKeys, totalTracks = 10, startedAt = 1000\<rparr>"
    using paused reached by (simp add: ten_second_batch ten_fields)
  have bf: "addTrackMetadataMigration failingEnv tenTracks (setTagData tenTracks (tenWorld []))
       = (Inl pausedError, world (checkpoint (pass10 [])))"
    using paused np
    by (simp add: ten_work ten_counts ten_firstPass ten_fields ten_first_step)
  have run: "fst (runMigrations failingEnv ''1.0.0'' tenTracks (tenWorld [])) = Inr True
     \<and> needsMigrations ''1.0.0''
        (store (snd (runMigrations failingEnv ''1.0.0'' tenTracks (tenWorld []))))
     \<and> stored_progress (store (snd (runMigrations failingEnv ''1.0.0'' tenTracks (tenWorld []))))
       = stored_progress (store (world (checkpoint (pass10 []))))"
    using paused ten_counts(3) ten_cleanup [of "[]"] bf isPauseError_pausedError
    by (auto simp: flagSet_def)
  have rethrow: "runMigrationsWith (\<lambda>d w. (Inl badRequest, w)) ''1.0.0'' tenTracks (tenWorld [])
       = (Inl badRequest, setTagData tenTracks (tenWorld []))"
    using thrown ten_counts(3) ten_cleanup [of "[]"] by (simp add: flagSet_def ten_counts)
  show ?thesis using np pb sp bf run rethrow by simp
qed

text \<open>
  The same run when the store rejects the first write: the second batch brings the count
  to ten, the write of the progress fails and is swallowed, and the pause error is thrown
  with no progress in the store. The driver returns normally, and the store it leaves
  holds no progress, so that the next run starts from nothing.
\<close>

theorem pause_without_stored_progress:
  "failingWrites (store (tenWorld [True])) = [True]
   \<and> runBatch failingEnv tenKeys 5 (pass5 [True]) = pass10 [True]
   \<and> consecutiveFailures (pass10 [True]) = 10
   \<and> failedSet (pass10 [True]) = tenKeys
   \<and> networkPass failingEnv 10 tenKeys 5 (pass5 [True])
       = (Some pausedError, checkpoint (pass10 [True]))
   \<and> addTrackMetadataMigration failingEnv tenTracks (setTagData tenTracks (tenWorld [True]))
       = (Inl pausedError, world (checkpoint (pass10 [True])))
   \<and> stored_progress (store (world (checkpoint (pass10 [True])))) = None
   \<and> fst (runMigrations failingEnv ''1.0.0'' tenTracks (tenWorld [True])) = Inr True
   \<and> getMigrationProgress
        (store (snd (runMigrations failingEnv ''1.0.0'' tenTracks (tenWorld [True])))) = None"
proof -
  have fw: "failingWrites (store (tenWorld [True])) = [True]"
    by (simp add: tenWorld_def)
  have "\<not> flagSet (addTrackMetadata (migrations
           \<lparr>version = ''0.0.0'',
            migrations = \<lparr>cleanupEmptyTracks = Some True, addTrackMetadata = None,
                          removeTrackInfoCache = None\<rparr>\<rparr>))"
    "\<not> flagSet (removeTrackInfoCache (migrations
           \<lparr>version = ''0.0.0'',
            migrations = \<lparr>cleanupEmptyTracks = Some True, addTrackMetadata = None,
                          removeTrackInfoCache = None\<rparr>\<rparr>))"
    by (simp_all add: flagSet_def)
  from runMigrations_after_pause [OF ten_counts(3) ten_cleanup [of "[True]"] this(1)
      ten_migration [of "[True]"] isPauseError_pausedError, where cur = "''1.0.0''"] this(2)
  have run: "fst (runMigrations failingEnv ''1.0.0'' tenTracks (tenWorld [True])) = Inr True
     \<and> stored_progress
          (store (snd (runMigrations failingEnv ''1.0.0'' tenTracks (tenWorld [True]))))
        = stored_progress (store (world (checkpoint (pass10 [True]))))"
    by auto
  show ?thesis
    using fw run ten_second_batch [of "[True]"] ten_pause [of "[True]"]
      ten_migration [of "[True]"] ten_stored_progress(2)
    by (simp add: ten_fields getMigrationProgress_def)
qed

subsection \<open>The driver\<close>

text \<open>
  C9. When the stored migration state has all three flags set and the running
  version, \<^verbatim>\<open>runMigrations\<close> returns \<^verbatim>\<open>false\<close> and leaves the store, the published
  datasets and the dispatched events as they are, whatever the dataset and the
  collaborators.
\<close>

theorem runMigrations_second_run_noop:
  assumes "stored_migrations (store w) = Some ms"
    and "version ms = cur"
    and "flagSet (cleanupEmptyTracks (migrations ms))"
    and "flagSet (addTrackMetadata (migrations ms))"
    and "flagSet (removeTrackInfoCache (migrations ms))"
  shows "runMigrations env cur d w = (Inr False, w)"
  using assms
  by (simp add: runMigrations_def runMigrationsWith_def finishMigrations_def
        cleanupStep_def getMigrationState_def Let_def)

lemma example_first_run:
  "fst (runMigrations exampleEnv ''1.0.0'' completeData exampleWorld) = Inr True"
  "stored_migrations (store (snd (runMigrations exampleEnv ''1.0.0'' completeData exampleWorld)))
     = Some \<lparr>version = ''1.0.0'',
             migrations = \<lparr>cleanupEmptyTracks = Some True, addTrackMetadata = Some True,
                           removeTrackInfoCache = Some True\<rparr>\<rparr>"
  "published (snd (runMigrations exampleEnv ''1.0.0'' completeData exampleWorld))
     = [completeData]"
  by code_simp+

theorem runMigrations_second_run_noop_witness:
  "fst (runMigrations exampleEnv ''1.0.0'' completeData exampleWorld) = Inr True
   \<and> runMigrations exampleEnv ''1.0.0'' completeData
        (snd (runMigrations exampleEnv ''1.0.0'' completeData exampleWorld))
     = (Inr False, snd (runMigrations exampleEnv ''1.0.0'' completeData exampleWorld))"
  using runMigrations_second_run_noop [OF example_first_run(2), where cur = "''1.0.0''"
      and env = exampleEnv and d = completeData]
  by (simp add: example_first_run(1) flagSet_def)

text \<open>
  C10. \<^verbatim>\<open>needsMigrations\<close> is true exactly when the stored version differs from the
  running one or one of the first two flags is not set. The flag of the third migration
  is not read: with the version current and the first two flags set, but the third not
  set, it answers \<^verbatim>\<open>false\<close> although \<^verbatim>\<open>runMigrations\<close> then still runs the third
  migration and reports a change.
\<close>

theorem needsMigrations_ignores_removeTrackInfoCache:
  "(needsMigrations cur st \<longleftrightarrow>
      version (getMigrationState st) \<noteq> cur
      \<or> \<not> flagSet (cleanupEmptyTracks (migrations (getMigrationState st)))
      \<or> \<not> flagSet (addTrackMetadata (migrations (getMigrationState st))))
   \<and> needsMigrations cur
        (st\<lparr>stored_migrations :=
             Some (ms\<lparr>migrations := (migrations ms)\<lparr>removeTrackInfoCache := x\<rparr>\<rparr>)\<rparr>)
     = needsMigrations cur (st\<lparr>stored_migrations := Some ms\<rparr>)
   \<and> (stored_migrations (store w) = Some ms \<and> version ms = cur
        \<and> flagSet (cleanupEmptyTracks (migrations ms))
        \<and> flagSet (addTrackMetadata (migrations ms))
        \<and> \<not> flagSet (removeTrackInfoCache (migrations ms))
        \<and> tracks d \<noteq> [] \<longrightarrow>
        \<not> needsMigrations cur (store w) \<and> fst (runMigrations env cur d w) = Inr True)"
  by (auto simp: needsMigrations_def getMigrationState_def Let_def runMigrations_def
        runMigrationsWith_def finishMigrations_def cleanupStep_def)

lemma example_third_pending:
  "fst (runMigrations exampleEnv ''1.0.0'' exampleData
     (exampleWorld\<lparr>store := emptyStore\<lparr>stored_migrations :=
        Some \<lparr>version = ''1.0.0'',
              migrations = \<lparr>cleanupEmptyTracks = Some True, addTrackMetadata = Some True,
                            removeTrackInfoCache = None\<rparr>\<rparr>\<rparr>\<rparr>)) = Inr True"
  "needsMigrations ''1.0.0'' (emptyStore\<lparr>stored_migrations :=
        Some \<lparr>version = ''1.0.0'',
              migrations = \<lparr>cleanupEmptyTracks = Some True, addTrackMetadata = Some True,
                            removeTrackInfoCache = None\<rparr>\<rparr>\<rparr>) = False"
  "needsMigrations ''1.0.0'' emptyStore = True"
  by code_simp+

theorem needsMigrations_ignores_removeTrackInfoCache_witness:
  "needsMigrations ''1.0.0'' (emptyStore\<lparr>stored_migrations :=
        Some \<lparr>version = ''1.0.0'',
              migrations = \<lparr>cleanupEmptyTracks = Some True, addTrackMetadata = Some True,
                            removeTrackInfoCache = None\<rparr>\<rparr>\<rparr>) = False
   \<and> fst (runMigrations exampleEnv ''1.0.0'' exampleData
     (exampleWorld\<lparr>store := emptyStore\<lparr>stored_migrations :=
        Some \<lparr>version = ''1.0.0'',
              migrations = \<lparr>cleanupEmptyTracks = Some True, addTrackMetadata = Some True,
                            removeTrackInfoCache = None\<rparr>\<rparr>\<rparr>\<rparr>)) = Inr True
   \<and> needsMigrations ''1.0.0'' emptyStore = True"
  using needsMigrations_ignores_removeTrackInfoCache [where cur = "''1.0.0''"
      and st = emptyStore and env = exampleEnv and d = exampleData
      and w = "exampleWorld\<lparr>store := emptyStore\<lparr>stored_migrations :=
        Some \<lparr>version = ''1.0.0'',
              migrations = \<lparr>cleanupEmptyTracks = Some True, addTrackMetadata = Some True,
                            removeTrackInfoCache = None\<rparr>\<rparr>\<rparr>\<rparr>"
      and ms = "\<lparr>version = ''1.0.0'',
              migrations = \<lparr>cleanupEmptyTracks = Some True, addTrackMetadata = Some True,
                            removeTrackInfoCache = None\<rparr>\<rparr>"]
  by (simp add: example_third_pending)

end
